theory Spec2Isabelle
  imports Main
begin

section \<open>Python strings and character classes\<close>

text \<open>
  A Python \<^verbatim>\<open>str\<close> is a sequence of Unicode code points; \<^verbatim>\<open>len\<close> counts code points.
  A code point is a natural number here, a string a list of them.
\<close>

type_synonym pystr = "nat list"

definition str :: "string \<Rightarrow> pystr" where
  "str s = map of_char s"

text \<open>
  \<^verbatim>\<open>str.isspace\<close>, \<^verbatim>\<open>str.strip()\<close>, \<^verbatim>\<open>str.split()\<close> and the regular expression class
  \<^verbatim>\<open>\s\<close> all use the interpreter's one whitespace test: U+0009..U+000D, U+001C..U+0020,
  U+0085, U+00A0, U+1680, U+2000..U+200A, U+2028, U+2029, U+202F, U+205F, U+3000.
\<close>

definition py_isspace :: "nat \<Rightarrow> bool" where
  "py_isspace c =
     ((9 \<le> c \<and> c \<le> 13) \<or> (28 \<le> c \<and> c \<le> 32) \<or> c = 133 \<or> c = 160 \<or> c = 5760 \<or>
      (8192 \<le> c \<and> c \<le> 8202) \<or> c = 8232 \<or> c = 8233 \<or> c = 8239 \<or> c = 8287 \<or> c = 12288)"

text \<open>
  The alphanumeric and decimal-digit tests read the Unicode database of the running
  interpreter, which is no part of the repository. The ASCII range is written out; above
  it the two tables are parameters of the model.
\<close>

record unicodedata =
  isalnum_above :: "nat \<Rightarrow> bool"
  isdecimal_above :: "nat \<Rightarrow> bool"

definition py_isalnum :: "unicodedata \<Rightarrow> nat \<Rightarrow> bool" where
  "py_isalnum U c =
     (if c < 128 then (48 \<le> c \<and> c \<le> 57) \<or> (65 \<le> c \<and> c \<le> 90) \<or> (97 \<le> c \<and> c \<le> 122)
      else isalnum_above U c)"

definition py_isdecimal :: "unicodedata \<Rightarrow> nat \<Rightarrow> bool" where
  "py_isdecimal U c = (if c < 128 then 48 \<le> c \<and> c \<le> 57 else isdecimal_above U c)"

text \<open>A database that knows no alphanumeric character beyond ASCII, for concrete runs.\<close>

definition ascii_only :: unicodedata where
  "ascii_only = \<lparr>isalnum_above = (\<lambda>c. False), isdecimal_above = (\<lambda>c. False)\<rparr>"

subsection \<open>strip, split, join\<close>

definition strip :: "pystr \<Rightarrow> pystr" where
  "strip s = rev (dropWhile py_isspace (rev (dropWhile py_isspace s)))"

text \<open>\<^verbatim>\<open>s.split()\<close>: the maximal runs of non-whitespace; \<open>cur\<close> is the word being read.\<close>

fun split_ws_from :: "pystr \<Rightarrow> pystr \<Rightarrow> pystr list" where
  "split_ws_from cur [] = (if cur = [] then [] else [cur])"
| "split_ws_from cur (c # s) =
     (if py_isspace c then (if cur = [] then split_ws_from [] s else cur # split_ws_from [] s)
      else split_ws_from (cur @ [c]) s)"

definition split_ws :: "pystr \<Rightarrow> pystr list" where
  "split_ws s = split_ws_from [] s"

text \<open>\<^verbatim>\<open>s.split(sep)\<close> for a one-character separator: never empty, \<^verbatim>\<open>''.split('\n') == ['']\<close>.\<close>

fun split_on :: "nat \<Rightarrow> pystr \<Rightarrow> pystr list" where
  "split_on sep [] = [[]]"
| "split_on sep (c # s) =
     (if c = sep then [] # split_on sep s
      else (case split_on sep s of [] \<Rightarrow> [[c]] | l # ls \<Rightarrow> (c # l) # ls))"

fun join :: "pystr \<Rightarrow> pystr list \<Rightarrow> pystr" where
  "join sep [] = []"
| "join sep [x] = x"
| "join sep (x # y # ys) = x @ sep @ join sep (y # ys)"

section \<open>The regular expressions the code uses\<close>

text \<open>
  The patterns of the source are sequences of one-character sets, each taken once or
  repeated greedily at least \<open>n\<close> times, between the anchors \<^verbatim>\<open>^\<close> and \<^verbatim>\<open>$\<close>.
\<close>

datatype cls =
    Rng nat nat   \<comment> \<open>\<^verbatim>\<open>a-z\<close>\<close>
  | Ch nat        \<comment> \<open>one character\<close>
  | Space         \<comment> \<open>\<^verbatim>\<open>\s\<close>\<close>
  | Digit         \<comment> \<open>\<^verbatim>\<open>\d\<close>\<close>
  | Word          \<comment> \<open>\<^verbatim>\<open>\w\<close>\<close>

datatype cset = In "cls list" | NotIn "cls list"

datatype item =
    Bol            \<comment> \<open>\<^verbatim>\<open>^\<close>\<close>
  | Eol            \<comment> \<open>\<^verbatim>\<open>$\<close>\<close>
  | One cset       \<comment> \<open>\<^verbatim>\<open>[...]\<close>, a literal, or an escape\<close>
  | Rep cset nat   \<comment> \<open>\<^verbatim>\<open>[...]{n,}\<close>; \<^verbatim>\<open>+\<close> is \<^verbatim>\<open>{1,}\<close> and \<^verbatim>\<open>*\<close> is \<^verbatim>\<open>{0,}\<close>\<close>

type_synonym regex = "item list"

fun in_cls :: "unicodedata \<Rightarrow> cls \<Rightarrow> nat \<Rightarrow> bool" where
  "in_cls U (Rng lo hi) c = (lo \<le> c \<and> c \<le> hi)"
| "in_cls U (Ch k) c = (c = k)"
| "in_cls U Space c = py_isspace c"
| "in_cls U Digit c = py_isdecimal U c"
| "in_cls U Word c = (py_isalnum U c \<or> c = 95)"

fun in_cset :: "unicodedata \<Rightarrow> cset \<Rightarrow> nat \<Rightarrow> bool" where
  "in_cset U (In cs) c = list_ex (\<lambda>k. in_cls U k c) cs"
| "in_cset U (NotIn cs) c = (\<not> list_ex (\<lambda>k. in_cls U k c) cs)"

definition lit :: "string \<Rightarrow> regex" where
  "lit s = map (\<lambda>c. One (In [Ch (of_char c)])) s"

text \<open>
  The backtracking matcher: \<open>re_end U p at_start s\<close> is what is left of \<open>s\<close> after the
  first way (longest repetitions first) in which \<open>p\<close> matches at the head of \<open>s\<close>,
  \<open>None\<close> when there is none. \<^verbatim>\<open>$\<close> holds at the end and before a final newline.
\<close>

fun re_end :: "unicodedata \<Rightarrow> regex \<Rightarrow> bool \<Rightarrow> pystr \<Rightarrow> pystr option" where
  "re_end U [] at s = Some s"
| "re_end U (Bol # p) at s = (if at then re_end U p at s else None)"
| "re_end U (Eol # p) at s = (if s = [] \<or> s = [10] then re_end U p at s else None)"
| "re_end U (One cs # p) at [] = None"
| "re_end U (One cs # p) at (c # s) = (if in_cset U cs c then re_end U p False s else None)"
| "re_end U (Rep cs n # p) at [] = (if n = 0 then re_end U p at [] else None)"
| "re_end U (Rep cs n # p) at (c # s) =
     (if in_cset U cs c
      then (case re_end U (Rep cs (n - 1) # p) False s of
              Some t \<Rightarrow> Some t
            | None \<Rightarrow> if n = 0 then re_end U p at (c # s) else None)
      else if n = 0 then re_end U p at (c # s) else None)"

text \<open>\<^verbatim>\<open>re.match(p, s)\<close> used as a condition: is there a match at the start of \<open>s\<close>.\<close>

definition re_match :: "unicodedata \<Rightarrow> regex \<Rightarrow> pystr \<Rightarrow> bool" where
  "re_match U p s = (re_end U p True s \<noteq> None)"

text \<open>
  \<^verbatim>\<open>re.sub(p, repl, s)\<close> for a constant replacement: the leftmost matches, one after the
  other, are replaced. An empty match is replaced too and the scan moves one character on.
\<close>

function re_sub_from :: "unicodedata \<Rightarrow> regex \<Rightarrow> pystr \<Rightarrow> bool \<Rightarrow> pystr \<Rightarrow> pystr" where
  "re_sub_from U p repl at s =
     (case re_end U p at s of
        Some t \<Rightarrow>
          if length t < length s then repl @ re_sub_from U p repl False t
          else repl @ (case s of [] \<Rightarrow> [] | c # s' \<Rightarrow> c # re_sub_from U p repl False s')
      | None \<Rightarrow> (case s of [] \<Rightarrow> [] | c # s' \<Rightarrow> c # re_sub_from U p repl False s'))"
  by pat_completeness auto
termination
  by (relation "measure (\<lambda>(U, p, repl, at, s). length s)") auto

definition re_sub :: "unicodedata \<Rightarrow> regex \<Rightarrow> pystr \<Rightarrow> pystr \<Rightarrow> pystr" where
  "re_sub U p repl s = re_sub_from U p repl True s"

section \<open>clean_text\<close>

text \<open>
  The three patterns of \<open>clean_text\<close>: \<^verbatim>\<open>\s+\<close>; a span from U+27EA to the next U+27EB; and
  \<^verbatim>\<open>[^\w\s.,!?;:'"()-]\<close>, one character that is not kept.
\<close>

definition ws_run :: regex where
  "ws_run = [Rep (In [Space]) 1]"

definition marker_span :: regex where
  "marker_span = [One (In [Ch 10218]), Rep (NotIn [Ch 10219]) 0, One (In [Ch 10219])]"

definition kept_chars :: "cls list" where
  "kept_chars =
     [Word, Space, Ch 46, Ch 44, Ch 33, Ch 63, Ch 59, Ch 58, Ch 39, Ch 34, Ch 40, Ch 41, Ch 45]"

definition special_char :: regex where
  "special_char = [One (NotIn kept_chars)]"

definition clean_text :: "unicodedata \<Rightarrow> pystr \<Rightarrow> pystr" where
  "clean_text U text =
     (let text = re_sub U ws_run (str '' '') (strip text);
          text = re_sub U marker_span [] text;
          text = re_sub U special_char [] text
      in text)"

section \<open>Boundary detection\<close>

text \<open>
  The dictionaries the two detectors append: \<^verbatim>\<open>{"title", "line", "start_content"}\<close>. The
  keys of the dictionaries are the fields of the records; where a variable of the source
  has the name of a field, the variable is primed (\<open>line'\<close>, \<open>content'\<close>, \<open>sections'\<close>).
\<close>

record marker =
  title :: pystr
  line :: nat
  start_content :: nat

text \<open>
  The \<^verbatim>\<open>while\<close> loop of both detectors: from \<open>content_start\<close> on, skip the lines that are
  blank after stripping; the result is \<open>length lines\<close> when no other line follows.
\<close>

function skip_blank_lines :: "pystr list \<Rightarrow> nat \<Rightarrow> nat" where
  "skip_blank_lines lines content_start =
     (if content_start < length lines \<and> strip (lines ! content_start) = []
      then skip_blank_lines lines (content_start + 1)
      else content_start)"
  by pat_completeness auto
termination
  by (relation "measure (\<lambda>(lines, content_start). length lines - content_start)") auto

text \<open>\<^verbatim>\<open>^Chapter\s+\d+\<close> and its like.\<close>

definition numbered :: "string \<Rightarrow> regex" where
  "numbered keyword = Bol # lit keyword @ [Rep (In [Space]) 1, Rep (In [Digit]) 1]"

text \<open>\<^verbatim>\<open>^[A-Z][A-Z\s]+$\<close>, \<^verbatim>\<open>^[A-Z][a-z\s]+:$\<close> and \<^verbatim>\<open>^[A-Z][a-z\s]{n,}$\<close>.\<close>

definition all_caps :: regex where
  "all_caps = [Bol, One (In [Rng 65 90]), Rep (In [Rng 65 90, Space]) 1, Eol]"

definition title_colon :: regex where
  "title_colon =
     [Bol, One (In [Rng 65 90]), Rep (In [Rng 97 122, Space]) 1, One (In [Ch 58]), Eol]"

definition long_title :: "nat \<Rightarrow> regex" where
  "long_title n = [Bol, One (In [Rng 65 90]), Rep (In [Rng 97 122, Space]) n, Eol]"

definition section_patterns :: "regex list" where
  "section_patterns =
     [all_caps,
      title_colon,
      numbered ''Chapter'',
      numbered ''Part'',
      numbered ''Section'',
      numbered ''Story'',
      long_title 10]"

text \<open>
  The inner loop over the patterns: the first pattern that matches appends the marker and
  breaks.
\<close>

fun section_match :: "unicodedata \<Rightarrow> pystr list \<Rightarrow> nat \<Rightarrow> pystr \<Rightarrow> regex list \<Rightarrow> marker list" where
  "section_match U lines i line' [] = []"
| "section_match U lines i line' (pattern # patterns) =
     (if re_match U pattern line'
      then (let content_start = skip_blank_lines lines (i + 1)
            in [\<lparr>title = line', line = i + 1, start_content = content_start + 1\<rparr>])
      else section_match U lines i line' patterns)"

text \<open>The outer loop, \<^verbatim>\<open>for i, line in enumerate(lines)\<close>; \<open>rest\<close> is \<open>lines\<close> from index \<open>i\<close> on.\<close>

fun section_scan :: "unicodedata \<Rightarrow> pystr list \<Rightarrow> nat \<Rightarrow> pystr list \<Rightarrow> marker list" where
  "section_scan U lines i [] = []"
| "section_scan U lines i (raw # rest) =
     (let line' = strip raw
      in if line' = [] then section_scan U lines (i + 1) rest
         else section_match U lines i line' section_patterns @ section_scan U lines (i + 1) rest)"

definition detect_section_patterns :: "unicodedata \<Rightarrow> pystr \<Rightarrow> marker list" where
  "detect_section_patterns U content =
     (let lines = split_on 10 content in section_scan U lines 0 lines)"

definition story_indicators :: "regex list" where
  "story_indicators =
     [long_title 15,
      numbered ''Chapter'',
      numbered ''Part'',
      numbered ''Story'',
      all_caps]"

text \<open>
  \<^verbatim>\<open>len(lines) - 10\<close> is negative for a short document, so the comparison is one of
  integers.
\<close>

fun story_match :: "unicodedata \<Rightarrow> pystr list \<Rightarrow> nat \<Rightarrow> pystr \<Rightarrow> regex list \<Rightarrow> marker list" where
  "story_match U lines i line' [] = []"
| "story_match U lines i line' (pattern # patterns) =
     (if re_match U pattern line'
      then (let content_start = skip_blank_lines lines (i + 1)
            in if int content_start < int (length lines) - 10
               then [\<lparr>title = line', line = i + 1, start_content = content_start + 1\<rparr>]
               else [])
      else story_match U lines i line' patterns)"

fun story_scan :: "unicodedata \<Rightarrow> pystr list \<Rightarrow> nat \<Rightarrow> pystr list \<Rightarrow> marker list" where
  "story_scan U lines i [] = []"
| "story_scan U lines i (raw # rest) =
     (let line' = strip raw
      in if line' = [] \<or> length line' < 10 then story_scan U lines (i + 1) rest
         else story_match U lines i line' story_indicators @ story_scan U lines (i + 1) rest)"

definition detect_story_boundaries :: "unicodedata \<Rightarrow> pystr \<Rightarrow> marker list" where
  "detect_story_boundaries U content =
     (let lines = split_on 10 content in story_scan U lines 0 lines)"

section \<open>Segmentation\<close>

record segment =
  type :: pystr
  title :: pystr
  content :: pystr
  start_line :: nat
  end_line :: nat
  word_count :: nat
  character_count :: nat

text \<open>
  The loop over the detected markers. \<open>start_content\<close> is at least 1, and a slice
  \<^verbatim>\<open>lines[a:b]\<close> with \<open>0 \<le> a\<close> is \<open>take (b - a) (drop a lines)\<close>: empty when \<open>b \<le> a\<close>,
  cut at the end of the list.
\<close>

fun section_loop :: "unicodedata \<Rightarrow> pystr list \<Rightarrow> marker list \<Rightarrow> segment list" where
  "section_loop U lines [] = []"
| "section_loop U lines (story # rest) =
     (let start_line = start_content story - 1;
          end_line = (case rest of [] \<Rightarrow> length lines | nxt # _ \<Rightarrow> start_content nxt - 1);
          story_lines = take (end_line - start_line) (drop start_line lines);
          story_content = join [10] story_lines;
          cleaned_content = clean_text U story_content
      in if length (split_ws cleaned_content) < 50 then section_loop U lines rest
         else \<lparr>type = str ''story'',
               title = marker.title story,
               content = cleaned_content,
               start_line = start_line + 1,
               end_line = end_line,
               word_count = length (split_ws cleaned_content),
               character_count = length cleaned_content\<rparr> # section_loop U lines rest)"

definition extract_content_sections :: "unicodedata \<Rightarrow> pystr \<Rightarrow> segment list" where
  "extract_content_sections U content' =
     (let lines = split_on 10 content';
          stories = detect_story_boundaries U content';
          stories = (if stories = [] then detect_section_patterns U content' else stories)
      in if stories = []
         then [\<lparr>type = str ''content'',
                title = str ''Full Content'',
                content = clean_text U content',
                start_line = 1,
                end_line = length lines,
                word_count = length (split_ws (clean_text U content')),
                character_count = length (clean_text U content')\<rparr>]
         else section_loop U lines stories)"

section \<open>The structured document\<close>

record metadata =
  title :: pystr
  source_file :: pystr
  total_sections :: nat
  stories :: nat
  conversion_date :: pystr
  conversion_notes :: pystr

record statistics =
  total_sections :: nat
  stories :: nat
  total_words :: nat
  total_characters :: nat

record book =
  metadata :: metadata
  sections :: "segment list"
  statistics :: statistics

text \<open>
  What the conversion takes from the interpreter's library and not from the repository:
  the path and title-case functions behind the document title, the UTF-8 decoder, and the
  JSON encoder and decoder. They are parameters; a file is a list of bytes.
\<close>

record pylib =
  path_stem :: "pystr \<Rightarrow> pystr"
  str_title :: "pystr \<Rightarrow> pystr"
  utf8_decode :: "nat list \<Rightarrow> pystr option"
  json_dump :: "book \<Rightarrow> nat list"
  json_dump_section :: "segment \<Rightarrow> nat list"
  json_load :: "nat list \<Rightarrow> book option"

definition replace_char :: "nat \<Rightarrow> nat \<Rightarrow> pystr \<Rightarrow> pystr" where
  "replace_char old new s = map (\<lambda>c. if c = old then new else c) s"

definition create_book_metadata :: "pylib \<Rightarrow> pystr \<Rightarrow> segment list \<Rightarrow> metadata" where
  "create_book_metadata L input_file sections' =
     (let title = str_title L (replace_char 95 32 (path_stem L input_file))
      in \<lparr>title = title,
          source_file = input_file,
          total_sections = length sections',
          stories = length (filter (\<lambda>s. type s = str ''story'') sections'),
          conversion_date = str ''2024'',
          conversion_notes =
            str ''Converted from text format to structured JSON using automatic section detection''\<rparr>)"

text \<open>The dictionary \<^verbatim>\<open>book_json\<close> that \<^verbatim>\<open>convert_book_to_json\<close> assembles and then writes.\<close>

definition book_json :: "pylib \<Rightarrow> pystr \<Rightarrow> segment list \<Rightarrow> book" where
  "book_json L input_file sections' =
     \<lparr>metadata = create_book_metadata L input_file sections',
      sections = sections',
      statistics =
        \<lparr>total_sections = length sections',
         stories = length (filter (\<lambda>s. type s = str ''story'') sections'),
         total_words = sum_list (map word_count sections'),
         total_characters = sum_list (map character_count sections')\<rparr>\<rparr>"

section \<open>Files, exceptions and the command line\<close>

text \<open>
  The exceptions a run can meet. \<open>OtherOSError\<close> stands for every \<^verbatim>\<open>OSError\<close> that is not a
  \<^verbatim>\<open>FileNotFoundError\<close>: \<^verbatim>\<open>NotADirectoryError\<close>, a name that is too long,
  \<^verbatim>\<open>PermissionError\<close>, \<^verbatim>\<open>IsADirectoryError\<close>, a full disk. \<open>ValueError\<close> stands for its
  subclasses: \<^verbatim>\<open>json.load\<close> on a file that is no such document, a string that cannot be
  encoded.
\<close>

datatype exn =
    FileNotFoundError
  | OtherOSError
  | ValueError

text \<open>
  What a path leads to. \<open>Missing\<close>: no file of this name in a directory that exists;
  opening it for reading raises \<^verbatim>\<open>FileNotFoundError\<close>. \<open>Unreachable\<close>: no file either, and
  the path cannot be followed (a component is a file and no directory, or a name is too
  long); opening it raises another \<^verbatim>\<open>OSError\<close>. \<open>Unreadable\<close>: something is there and cannot
  be opened for reading (a directory, no permission).
\<close>

datatype entry = Missing | Unreachable | Unreadable | Data "nat list"

datatype message =
    Reading_text_from pystr
  | Analyzing_content_structure
  | Writing_structured_JSON_to pystr
  | Conversion_completed_successfully
  | Total_sections_processed nat
  | Total_words nat
  | Total_characters nat
  | Creating_individual_section_files
  | Created pystr
  | Conversion_completed
  | Main_structured_file pystr
  | Individual_section_files
  | Error_could_not_find_input_file pystr
  | Please_make_sure_the_file_exists
  | Error_during_conversion exn

text \<open>
  The world a run acts on: what each path leads to; the exception that opening a path
  for writing raises (if any); the exception that interrupts the writing of given bytes to
  a path (if any) with the number of bytes that are written before it; and what has been
  printed.
\<close>

record world =
  files :: "pystr \<Rightarrow> entry"
  write_error :: "pystr \<Rightarrow> exn option"
  dump_error :: "pystr \<Rightarrow> nat list \<Rightarrow> (exn \<times> nat) option"
  stdout :: "message list"

definition print :: "message \<Rightarrow> world \<Rightarrow> world" where
  "print m w = w\<lparr>stdout := stdout w @ [m]\<rparr>"

definition open_read :: "world \<Rightarrow> pystr \<Rightarrow> exn + nat list" where
  "open_read w path =
     (case files w path of
        Missing \<Rightarrow> Inl FileNotFoundError
      | Unreachable \<Rightarrow> Inl OtherOSError
      | Unreadable \<Rightarrow> Inl OtherOSError
      | Data bytes \<Rightarrow> Inr bytes)"

text \<open>
  \<^verbatim>\<open>with open(path, 'w') as f: json.dump(..., f)\<close>. When the file cannot be opened nothing
  changes. Opening it empties it; the document is then written piece by piece, and an
  exception on the way leaves the file with the bytes written so far.
\<close>

definition write_file :: "pystr \<Rightarrow> nat list \<Rightarrow> world \<Rightarrow> (exn + unit) \<times> world" where
  "write_file path bytes w =
     (case write_error w path of
        Some e \<Rightarrow> (Inl e, w)
      | None \<Rightarrow>
          (case dump_error w path bytes of
             Some (e, k) \<Rightarrow> (Inl e, w\<lparr>files := (files w)(path := Data (take k bytes))\<rparr>)
           | None \<Rightarrow> (Inr (), w\<lparr>files := (files w)(path := Data bytes)\<rparr>)))"

text \<open>Text mode reads with universal newlines: \<^verbatim>\<open>\r\n\<close> and \<^verbatim>\<open>\r\<close> arrive as \<^verbatim>\<open>\n\<close>.\<close>

fun universal_newlines :: "pystr \<Rightarrow> pystr" where
  "universal_newlines [] = []"
| "universal_newlines [c] = (if c = 13 then [10] else [c])"
| "universal_newlines (c # d # s) =
     (if c = 13 \<and> d = 10 then 10 # universal_newlines s
      else if c = 13 then 10 # universal_newlines (d # s)
      else c # universal_newlines (d # s))"

text \<open>
  The \<^verbatim>\<open>try\<close> around the read: UTF-8 first; on \<^verbatim>\<open>UnicodeDecodeError\<close> the file is opened
  again as Latin-1, which maps every byte to the code point of the same number.
\<close>

definition read_content :: "pylib \<Rightarrow> world \<Rightarrow> pystr \<Rightarrow> exn + pystr" where
  "read_content L w input_file =
     (case open_read w input_file of
        Inl e \<Rightarrow> Inl e
      | Inr bytes \<Rightarrow>
          (case utf8_decode L bytes of
             Some text \<Rightarrow> Inr (universal_newlines text)
           | None \<Rightarrow>
               (case open_read w input_file of
                  Inl e \<Rightarrow> Inl e
                | Inr bytes \<Rightarrow> Inr (universal_newlines bytes))))"

definition convert_book_to_json ::
    "pylib \<Rightarrow> unicodedata \<Rightarrow> pystr \<Rightarrow> pystr \<Rightarrow> world \<Rightarrow> (exn + unit) \<times> world" where
  "convert_book_to_json L U input_file output_file w =
     (let w = print (Reading_text_from input_file) w
      in case read_content L w input_file of
           Inl e \<Rightarrow> (Inl e, w)
         | Inr content' \<Rightarrow>
             (let w = print Analyzing_content_structure w;
                  sections' = extract_content_sections U content';
                  book = book_json L input_file sections';
                  w = print (Writing_structured_JSON_to output_file) w
              in case write_file output_file (json_dump L book) w of
                   (Inl e, w) \<Rightarrow> (Inl e, w)
                 | (Inr u, w) \<Rightarrow>
                     (let w = print Conversion_completed_successfully w;
                          w = print (Total_sections_processed (length sections')) w;
                          w = print (Total_words (total_words (statistics book))) w;
                          w = print (Total_characters (total_characters (statistics book))) w
                      in (Inr (), w))))"

record args =
  input_file :: pystr
  "output" :: "pystr option"
  individual :: bool

definition non_word_space_hyphen :: regex where
  "non_word_space_hyphen = [One (NotIn [Word, Space, Ch 45])]"

definition hyphens_spaces :: regex where
  "hyphens_spaces = [Rep (In [Ch 45, Space]) 1]"

text \<open>The loop of \<^verbatim>\<open>--individual\<close>: one file per section, stopping at the first failure.\<close>

fun write_sections :: "pylib \<Rightarrow> unicodedata \<Rightarrow> segment list \<Rightarrow> world \<Rightarrow> (exn + unit) \<times> world" where
  "write_sections L U [] w = (Inr (), w)"
| "write_sections L U (section # rest) w =
     (let safe_title = re_sub U non_word_space_hyphen [] (segment.title section);
          safe_title = re_sub U hyphens_spaces (str ''_'') safe_title;
          section_file = str ''section_'' @ safe_title @ str ''.json''
      in case write_file section_file (json_dump_section L section) w of
           (Inl e, w) \<Rightarrow> (Inl e, w)
         | (Inr u, w) \<Rightarrow> write_sections L U rest (print (Created section_file) w))"

text \<open>The body of the \<^verbatim>\<open>try\<close> in \<^verbatim>\<open>main\<close>.\<close>

definition main_try :: "pylib \<Rightarrow> unicodedata \<Rightarrow> args \<Rightarrow> pystr \<Rightarrow> world \<Rightarrow> (exn + unit) \<times> world" where
  "main_try L U a output_file w =
     (case convert_book_to_json L U (input_file a) output_file w of
        (Inl e, w) \<Rightarrow> (Inl e, w)
      | (Inr u, w) \<Rightarrow>
          (let r =
             (if individual a
              then (let w = print Creating_individual_section_files w
                    in case open_read w output_file of
                         Inl e \<Rightarrow> (Inl e, w)
                       | Inr bytes \<Rightarrow>
                           (case json_load L bytes of
                              None \<Rightarrow> (Inl ValueError, w)
                            | Some book_data \<Rightarrow> write_sections L U (sections book_data) w))
              else (Inr (), w))
           in case r of
                (Inl e, w) \<Rightarrow> (Inl e, w)
              | (Inr u, w) \<Rightarrow>
                  (let w = print Conversion_completed w;
                       w = print (Main_structured_file output_file) w;
                       w = (if individual a then print Individual_section_files w else w)
                   in (Inr (), w))))"

text \<open>
  \<^verbatim>\<open>main\<close> after the arguments are parsed; an empty \<^verbatim>\<open>--output\<close> is false in the
  condition and gives the default name as well. Both handlers only print.
\<close>

definition main :: "pylib \<Rightarrow> unicodedata \<Rightarrow> args \<Rightarrow> world \<Rightarrow> world" where
  "main L U a w =
     (let output_file =
            (case output a of
               Some name \<Rightarrow> if name \<noteq> [] then name else path_stem L (input_file a) @ str ''_structured.json''
             | None \<Rightarrow> path_stem L (input_file a) @ str ''_structured.json'')
      in case main_try L U a output_file w of
           (Inr u, w) \<Rightarrow> w
         | (Inl FileNotFoundError, w) \<Rightarrow>
             print Please_make_sure_the_file_exists
               (print (Error_could_not_find_input_file (input_file a)) w)
         | (Inl e, w) \<Rightarrow> print (Error_during_conversion e) w)"

section \<open>chunk_text\<close>

text \<open>
  The loop of \<^verbatim>\<open>chunk_text\<close> over the words, with its three variables; \<open>chunk_size\<close> is any
  integer.
\<close>

fun chunk_loop :: "int \<Rightarrow> pystr list \<Rightarrow> pystr list \<Rightarrow> pystr list \<Rightarrow> int \<Rightarrow> pystr list \<times> pystr list" where
  "chunk_loop chunk_size [] chunks current_chunk current_size = (chunks, current_chunk)"
| "chunk_loop chunk_size (word # words) chunks current_chunk current_size =
     (if current_size + int (length word) + 1 > chunk_size \<and> current_chunk \<noteq> []
      then chunk_loop chunk_size words (chunks @ [join (str '' '') current_chunk]) [word]
             (int (length word))
      else chunk_loop chunk_size words chunks (current_chunk @ [word])
             (current_size + int (length word) + 1))"

definition chunk_text :: "pystr \<Rightarrow> int \<Rightarrow> pystr list" where
  "chunk_text text chunk_size =
     (case chunk_loop chunk_size (split_ws text) [] [] 0 of
        (chunks, current_chunk) \<Rightarrow>
          if current_chunk \<noteq> [] then chunks @ [join (str '' '') current_chunk] else chunks)"

section \<open>Predicates the properties are stated with\<close>

text \<open>A word character of the regular expressions: alphanumeric, or the underscore.\<close>

definition word_char :: "unicodedata \<Rightarrow> nat \<Rightarrow> bool" where
  "word_char U c = (py_isalnum U c \<or> c = 95)"

text \<open>The punctuation \<^verbatim>\<open>. , ! ? ; : ' " ( ) -\<close>.\<close>

definition listed_punct :: "nat \<Rightarrow> bool" where
  "listed_punct c =
     (c = 46 \<or> c = 44 \<or> c = 33 \<or> c = 63 \<or> c = 59 \<or> c = 58 \<or> c = 39 \<or> c = 34 \<or> c = 40 \<or>
      c = 41 \<or> c = 45)"

text \<open>
  The character set as the specification words it: alphanumeric, whitespace, or listed
  punctuation.
\<close>

definition claimed_char :: "unicodedata \<Rightarrow> nat \<Rightarrow> bool" where
  "claimed_char U c = (py_isalnum U c \<or> py_isspace c \<or> listed_punct c)"

text \<open>Two whitespace characters in a row; whitespace at the head; whitespace at the end.\<close>

fun ws_pair :: "pystr \<Rightarrow> bool" where
  "ws_pair (a # b # s) = ((py_isspace a \<and> py_isspace b) \<or> ws_pair (b # s))"
| "ws_pair s = False"

definition starts_ws :: "pystr \<Rightarrow> bool" where
  "starts_ws s = (case s of [] \<Rightarrow> False | c # t \<Rightarrow> py_isspace c)"

definition ends_ws :: "pystr \<Rightarrow> bool" where
  "ends_ws s = starts_ws (rev s)"

text \<open>A word as \<^verbatim>\<open>split()\<close> returns it: not empty, without whitespace.\<close>

definition good_word :: "pystr \<Rightarrow> bool" where
  "good_word w = (w \<noteq> [] \<and> \<not> list_ex py_isspace w)"

text \<open>
  The patterns in words: an ASCII capital, an ASCII small letter; a line of capitals and
  whitespace of at least two characters that begins with a capital; a capital, then at
  least one small letter or whitespace character, then a colon; a capital, then at least
  \<open>n\<close> small letters or whitespace characters; a keyword, whitespace and a decimal digit at
  the head of the line.
\<close>

definition upper :: "nat \<Rightarrow> bool" where
  "upper c = (65 \<le> c \<and> c \<le> 90)"

definition lower :: "nat \<Rightarrow> bool" where
  "lower c = (97 \<le> c \<and> c \<le> 122)"

definition is_all_caps :: "pystr \<Rightarrow> bool" where
  "is_all_caps l =
     (\<exists>c cs. l = c # cs \<and> upper c \<and> cs \<noteq> [] \<and> list_all (\<lambda>x. upper x \<or> py_isspace x) cs)"

definition is_title_colon :: "pystr \<Rightarrow> bool" where
  "is_title_colon l =
     (\<exists>c cs. l = c # cs @ [58] \<and> upper c \<and> cs \<noteq> [] \<and>
        list_all (\<lambda>x. lower x \<or> py_isspace x) cs)"

definition is_long_title :: "nat \<Rightarrow> pystr \<Rightarrow> bool" where
  "is_long_title n l =
     (\<exists>c cs. l = c # cs \<and> upper c \<and> n \<le> length cs \<and>
        list_all (\<lambda>x. lower x \<or> py_isspace x) cs)"

definition is_numbered :: "unicodedata \<Rightarrow> string \<Rightarrow> pystr \<Rightarrow> bool" where
  "is_numbered U kw l =
     (\<exists>ws d rest. l = str kw @ ws @ d # rest \<and> ws \<noteq> [] \<and> list_all py_isspace ws \<and>
        py_isdecimal U d)"

text \<open>The number of lines strictly after the line of index \<open>k\<close>.\<close>

definition lines_after :: "pystr list \<Rightarrow> nat \<Rightarrow> nat" where
  "lines_after lines k = length (drop (Suc k) lines)"

text \<open>
  The pattern list of the section detector as the specification words it: the story
  patterns with the length floor of the title-case pattern taken away, and the title-case
  line that ends in a colon.
\<close>

definition spec_policy_b_patterns :: "regex list" where
  "spec_policy_b_patterns =
     [long_title 0,
      numbered ''Chapter'',
      numbered ''Part'',
      numbered ''Story'',
      all_caps,
      title_colon]"

subsection \<open>Example documents\<close>

text \<open>\<^verbatim>\<open>"word " * n\<close>.\<close>

definition words :: "nat \<Rightarrow> pystr" where
  "words n = concat (replicate n (str ''word ''))"

text \<open>\<^verbatim>\<open>"CHAPTER ONE\n\n" + ("word " * n) + "\n\nCHAPTER TWO\n\n" + ("word " * n)\<close>.\<close>

definition two_chapters :: "nat \<Rightarrow> pystr" where
  "two_chapters n =
     str ''CHAPTER ONE'' @ [10, 10] @ words n @ [10, 10] @ str ''CHAPTER TWO'' @ [10, 10] @ words n"

text \<open>Five short lines without a heading.\<close>

definition five_lines :: pystr where
  "five_lines =
     str ''one'' @ [10] @ str ''two'' @ [10] @ str ''three'' @ [10] @ str ''four'' @ [10] @
     str ''five''"

text \<open>A heading and two words of body.\<close>

definition heading_only :: pystr where
  "heading_only = str ''CHAPTER ONE'' @ [10, 10] @ str ''short text''"


subsection \<open>A library and some worlds for concrete runs\<close>

text \<open>
  Stand-ins for the library functions: the stem and the title are the path itself, UTF-8
  decodes ASCII bytes only, and the serialiser writes the contents of the sections.
\<close>

definition stub_lib :: pylib where
  "stub_lib =
     \<lparr>path_stem = (\<lambda>p. p),
      str_title = (\<lambda>s. s),
      utf8_decode = (\<lambda>bytes. if list_all (\<lambda>b. b < 128) bytes then Some bytes else None),
      json_dump = (\<lambda>b. concat (map content (sections b))),
      json_dump_section = (\<lambda>s. content s),
      json_load = (\<lambda>bytes. None)\<rparr>"

definition empty_world :: world where
  "empty_world =
     \<lparr>files = (\<lambda>p. Missing), write_error = (\<lambda>p. None), dump_error = (\<lambda>p bytes. None),
      stdout = []\<rparr>"

definition five_lines_world :: world where
  "five_lines_world =
     \<lparr>files = (\<lambda>p. if p = str ''in.txt'' then Data five_lines else Missing),
      write_error = (\<lambda>p. None), dump_error = (\<lambda>p bytes. None), stdout = []\<rparr>"

text \<open>The same world, where writing to \<^verbatim>\<open>out.json\<close> is interrupted after three bytes.\<close>

definition full_disk_world :: world where
  "full_disk_world =
     \<lparr>files = (\<lambda>p. if p = str ''in.txt'' then Data five_lines
                    else if p = str ''out.json'' then Data (str ''old'') else Missing),
      write_error = (\<lambda>p. None),
      dump_error = (\<lambda>p bytes. if p = str ''out.json'' then Some (OtherOSError, 3) else None),
      stdout = []\<rparr>"

text \<open>
  A world with the one file \<^verbatim>\<open>in.txt\<close>: a path that goes through it, as
  \<^verbatim>\<open>in.txt/child.txt\<close> does, leads to no file and cannot be followed.
\<close>

definition one_file_world :: world where
  "one_file_world =
     \<lparr>files = (\<lambda>p. if p = str ''in.txt'' then Data five_lines
                    else if take 7 p = str ''in.txt/'' then Unreachable else Missing),
      write_error = (\<lambda>p. if take 7 p = str ''in.txt/'' then Some OtherOSError else None),
      dump_error = (\<lambda>p bytes. None), stdout = []\<rparr>"

text \<open>There is no file at the path, in either way.\<close>

definition no_such_file :: "world \<Rightarrow> pystr \<Rightarrow> bool" where
  "no_such_file w p = (files w p = Missing \<or> files w p = Unreachable)"


section \<open>Facts about the matcher and the substitutions\<close>

declare re_sub_from.simps [simp del]
declare skip_blank_lines.simps [simp del]

lemmas text_eval = clean_text_def strip_def str_def py_isspace_def py_isalnum_def py_isdecimal_def
  re_sub_def ws_run_def marker_span_def special_char_def kept_chars_def ascii_only_def
  re_sub_from.simps in_cset.simps Let_def

lemma re_sub_One_filter:
  "re_sub_from U [One cs] [] at s = filter (\<lambda>c. \<not> in_cset U cs c) s"
proof (induction s arbitrary: at)
  case Nil
  show ?case by (subst re_sub_from.simps) simp
next
  case (Cons c s)
  show ?case by (subst re_sub_from.simps) (simp add: Cons.IH)
qed

lemma re_end_Rep:
  "re_end U [Rep cs n] at s =
     (if n \<le> length (takeWhile (in_cset U cs) s) then Some (dropWhile (in_cset U cs) s) else None)"
proof (induction s arbitrary: n at)
  case Nil
  show ?case by simp
next
  case (Cons c s)
  show ?case by (auto simp: Cons.IH)
qed

lemma re_end_set:
  "re_end U p at s = Some t \<Longrightarrow> set t \<subseteq> set s"
  by (induction U p at s rule: re_end.induct) (auto split: if_splits option.splits)

lemma re_sub_del_set:
  "set (re_sub_from U p [] at s) \<subseteq> set s"
proof (induction s arbitrary: at rule: length_induct)
  case (1 s)
  show ?case
  proof (cases "re_end U p at s")
    case None
    show ?thesis
    proof (cases s)
      case Nil
      then show ?thesis using None by (subst re_sub_from.simps) simp
    next
      case (Cons c s')
      have "set (re_sub_from U p [] False s') \<subseteq> set s'" using 1 Cons by simp
      then show ?thesis using None Cons by (subst re_sub_from.simps) auto
    qed
  next
    case (Some t)
    have ts: "set t \<subseteq> set s" using Some by (rule re_end_set)
    show ?thesis
    proof (cases "length t < length s")
      case True
      have "set (re_sub_from U p [] False t) \<subseteq> set t" using 1 True by simp
      then show ?thesis using Some True ts by (subst re_sub_from.simps) auto
    next
      case False
      show ?thesis
      proof (cases s)
        case Nil
        then show ?thesis using Some False by (subst re_sub_from.simps) simp
      next
        case (Cons c s')
        have "set (re_sub_from U p [] False s') \<subseteq> set s'" using 1 Cons by simp
        then show ?thesis using Some False Cons by (subst re_sub_from.simps) auto
      qed
    qed
  qed
qed

lemma in_cset_Space [simp]: "in_cset U (In [Space]) = py_isspace"
  by (rule ext) simp

subsection \<open>Collapsing whitespace\<close>

lemma ws_sub_Nil: "re_sub_from U ws_run r at [] = []"
  by (subst re_sub_from.simps) (simp add: ws_run_def)

lemma ws_sub_Cons:
  "re_sub_from U ws_run r at (c # s) =
     (if py_isspace c then r @ re_sub_from U ws_run r False (dropWhile py_isspace s)
      else c # re_sub_from U ws_run r False s)"
proof -
  have "length (dropWhile py_isspace s) < Suc (length s)"
    using length_dropWhile_le [of py_isspace s] by simp
  then show ?thesis
    by (subst re_sub_from.simps) (simp add: ws_run_def re_end_Rep)
qed

lemma ws_sub_set:
  "c \<in> set (re_sub_from U ws_run [32] at s) \<Longrightarrow> c = 32 \<or> (c \<in> set s \<and> \<not> py_isspace c)"
proof (induction s arbitrary: at rule: length_induct)
  case (1 s)
  show ?case
  proof (cases s)
    case Nil
    then show ?thesis using 1(2) by (simp add: ws_sub_Nil)
  next
    case (Cons a t)
    show ?thesis
    proof (cases "py_isspace a")
      case True
      have len: "length (dropWhile py_isspace t) < length s"
        using length_dropWhile_le [of py_isspace t] Cons by simp
      have "c = 32 \<or> c \<in> set (re_sub_from U ws_run [32] False (dropWhile py_isspace t))"
        using 1(2) Cons True by (simp add: ws_sub_Cons)
      then show ?thesis
        using 1(1) len set_dropWhileD [of c py_isspace t] Cons by auto
    next
      case False
      have "c = a \<or> c \<in> set (re_sub_from U ws_run [32] False t)"
        using 1(2) Cons False by (simp add: ws_sub_Cons)
      then show ?thesis using 1(1) Cons False by auto
    qed
  qed
qed

lemma starts_ws_sub:
  "starts_ws (re_sub_from U ws_run [32] at s) = starts_ws s"
  by (cases s) (simp_all add: ws_sub_Nil ws_sub_Cons starts_ws_def py_isspace_def)

lemma ws_pair_Cons: "ws_pair (a # s) = ((py_isspace a \<and> starts_ws s) \<or> ws_pair s)"
  by (cases s) (simp_all add: starts_ws_def)

lemma starts_ws_dropWhile [simp]: "\<not> starts_ws (dropWhile py_isspace s)"
  by (induction s) (simp_all add: starts_ws_def)

lemma ws_sub_no_pair:
  "\<not> ws_pair (re_sub_from U ws_run [32] at s)"
proof (induction s arbitrary: at rule: length_induct)
  case (1 s)
  show ?case
  proof (cases s)
    case Nil
    then show ?thesis by (simp add: ws_sub_Nil)
  next
    case (Cons a t)
    have len: "length (dropWhile py_isspace t) < length s"
      using length_dropWhile_le [of py_isspace t] Cons by simp
    show ?thesis
      using 1 len Cons by (simp add: ws_sub_Cons ws_pair_Cons starts_ws_sub)
  qed
qed

lemma ends_ws_Cons: "ends_ws (a # s) = (if s = [] then py_isspace a else ends_ws s)"
  by (cases s rule: rev_cases) (simp_all add: ends_ws_def starts_ws_def)

lemma ends_ws_dropWhile:
  "dropWhile py_isspace s \<noteq> [] \<Longrightarrow> ends_ws (dropWhile py_isspace s) = ends_ws s"
  by (induction s) (auto simp: ends_ws_Cons)

lemma dropWhile_Nil_ends: "dropWhile py_isspace s = [] \<Longrightarrow> s \<noteq> [] \<Longrightarrow> ends_ws s"
  by (induction s) (auto simp: ends_ws_Cons split: if_splits)

lemma ws_sub_Nil_iff: "re_sub_from U ws_run [32] at s = [] \<longleftrightarrow> s = []"
  by (cases s) (simp_all add: ws_sub_Nil ws_sub_Cons)

lemma ws_sub_ends:
  "ends_ws (re_sub_from U ws_run [32] at s) \<Longrightarrow> ends_ws s"
proof (induction s arbitrary: at rule: length_induct)
  case (1 s)
  show ?case
  proof (cases s)
    case Nil
    then show ?thesis using 1(2) by (simp add: ws_sub_Nil)
  next
    case (Cons a t)
    have len: "length (dropWhile py_isspace t) < length s"
      using length_dropWhile_le [of py_isspace t] Cons by simp
    show ?thesis
    proof (cases "py_isspace a")
      case True
      show ?thesis
      proof (cases "dropWhile py_isspace t = []")
        case True
        then show ?thesis using \<open>py_isspace a\<close> Cons dropWhile_Nil_ends [of t]
          by (cases "t = []") (simp_all add: ends_ws_Cons)
      next
        case False
        then have "ends_ws (re_sub_from U ws_run [32] False (dropWhile py_isspace t))"
          using 1(2) Cons True by (simp add: ws_sub_Cons ends_ws_Cons ws_sub_Nil_iff)
        then have "ends_ws (dropWhile py_isspace t)" using 1(1) len by blast
        then show ?thesis using False Cons ends_ws_dropWhile [of t]
          by (cases "t = []") (simp_all add: ends_ws_Cons)
      qed
    next
      case False
      show ?thesis
      proof (cases "t = []")
        case True
        then show ?thesis using 1(2) Cons False
          by (simp add: ws_sub_Cons ends_ws_Cons ws_sub_Nil)
      next
        case nonempty: False
        then have "ends_ws (re_sub_from U ws_run [32] False t)"
          using 1(2) Cons False by (simp add: ws_sub_Cons ends_ws_Cons ws_sub_Nil_iff)
        then have "ends_ws t" using 1(1) Cons by auto
        then show ?thesis using Cons nonempty by (simp add: ends_ws_Cons)
      qed
    qed
  qed
qed

subsection \<open>strip\<close>

lemma strip_no_start: "\<not> starts_ws (strip s)"
proof -
  have "\<not> starts_ws (rev (dropWhile py_isspace (rev t)))" if a: "\<not> starts_ws t" for t
  proof (cases t)
    case Nil
    then show ?thesis by (simp add: starts_ws_def)
  next
    case (Cons c u)
    then have nc: "\<not> py_isspace c" using a by (simp add: starts_ws_def)
    have "dropWhile py_isspace (rev u @ [c]) = dropWhile py_isspace (rev u) @ [c] \<or>
          dropWhile py_isspace (rev u @ [c]) = [c]"
      using nc by (simp add: dropWhile_append)
    then show ?thesis using Cons nc by (auto simp: starts_ws_def)
  qed
  then show ?thesis by (simp add: strip_def)
qed

lemma strip_no_end: "\<not> ends_ws (strip s)"
  by (simp add: strip_def ends_ws_def)

lemma set_strip: "set (strip s) \<subseteq> set s"
  using set_dropWhileD [of _ py_isspace "rev (dropWhile py_isspace s)"]
    set_dropWhileD [of _ py_isspace s]
  by (auto simp: strip_def)

section \<open>clean_text: the characters of the result\<close>

lemma in_kept_chars:
  "in_cset U (In kept_chars) c = (word_char U c \<or> py_isspace c \<or> listed_punct c)"
  by (auto simp: kept_chars_def word_char_def listed_punct_def)

lemma not_NotIn: "(\<not> in_cset U (NotIn cs) c) = in_cset U (In cs) c"
  by simp

declare in_cset.simps [simp del]

lemma clean_text_filter:
  "clean_text U text =
     filter (in_cset U (In kept_chars))
       (re_sub_from U marker_span [] True (re_sub_from U ws_run [32] True (strip text)))"
  by (simp add: clean_text_def special_char_def re_sub_def re_sub_One_filter str_def Let_def
      not_NotIn)

lemma clean_text_chars_sub:
  "set (clean_text U text) \<subseteq> set (re_sub_from U ws_run [32] True (strip text))"
  using re_sub_del_set [of U marker_span True "re_sub_from U ws_run [32] True (strip text)"]
  by (auto simp: clean_text_filter)

lemma marker_sub_id:
  "10218 \<notin> set s \<Longrightarrow> re_sub_from U marker_span [] at s = s"
proof (induction s arbitrary: at)
  case Nil
  show ?case by (subst re_sub_from.simps) (simp add: marker_span_def)
next
  case (Cons c s)
  then show ?case by (subst re_sub_from.simps) (simp add: marker_span_def in_cset.simps)
qed

text \<open>
  C4, as the code has it. Every character of \<open>clean_text text\<close> is a word character
  (alphanumeric or the underscore, the class \<^verbatim>\<open>\w\<close>), whitespace, or one of the
  punctuation characters \<^verbatim>\<open>. , ! ? ; : ' " ( ) -\<close>.
\<close>

theorem clean_text_charset:
  "\<forall>c \<in> set (clean_text U text). word_char U c \<or> py_isspace c \<or> listed_punct c"
  by (auto simp: clean_text_filter in_kept_chars)

theorem clean_text_charset_witness:
  "clean_text ascii_only (str ''x_1 #y'') = str ''x_1 y'' \<and>
   list_all (\<lambda>c. word_char ascii_only c \<or> py_isspace c \<or> listed_punct c) (str ''x_1 y'')"
proof -
  have ev: "clean_text ascii_only (str ''x_1 #y'') = str ''x_1 y''"
    by (simp add: text_eval)
  show ?thesis
    using clean_text_charset [of ascii_only "str ''x_1 #y''"] unfolding ev
    by (simp only: list_all_iff simp_thms)
qed

text \<open>
  C4 as the specification words it (alphanumeric, whitespace or listed punctuation only)
  fails: the underscore is kept, and it is none of the three.
\<close>

theorem clean_text_underscore_counterexample:
  "clean_text ascii_only (str ''a_b'') = str ''a_b'' \<and>
   \<not> list_all (claimed_char ascii_only) (clean_text ascii_only (str ''a_b''))"
proof -
  have ev: "clean_text ascii_only (str ''a_b'') = str ''a_b''"
    by (simp add: text_eval)
  have "\<not> claimed_char ascii_only 95"
    by (simp add: claimed_char_def listed_punct_def py_isalnum_def py_isspace_def)
  then show ?thesis unfolding ev by (simp add: str_def)
qed

section \<open>clean_text: whitespace in the result\<close>

text \<open>When nothing is deleted, the result is the stripped text with its whitespace collapsed.\<close>

lemma clean_text_kept:
  assumes "list_all (in_cset U (In kept_chars)) text" and "10218 \<notin> set text"
  shows "clean_text U text = re_sub_from U ws_run [32] True (strip text)"
proof -
  let ?r = "re_sub_from U ws_run [32] True (strip text)"
  have r_in: "c = 32 \<or> c \<in> set text" if "c \<in> set ?r" for c
    using that ws_sub_set [of c U True "strip text"] set_strip [of "text"] by auto
  have no_marker: "10218 \<notin> set ?r"
  proof
    assume "10218 \<in> set ?r"
    then have "(10218::nat) = 32 \<or> 10218 \<in> set text" by (rule r_in)
    then show False using assms by simp
  qed
  have kept32: "in_cset U (In kept_chars) 32"
    by (simp add: in_kept_chars py_isspace_def)
  have all_kept: "\<forall>c \<in> set ?r. in_cset U (In kept_chars) c"
    using r_in assms kept32 by (auto simp: list_all_iff)
  show ?thesis
    using all_kept no_marker by (simp add: clean_text_filter marker_sub_id filter_id_conv)
qed

text \<open>
  The first step does what its comment says: the stripped text with its whitespace runs
  collapsed has no two whitespace characters in a row and none at either end. And
  whatever is deleted afterwards, the only whitespace the result can hold is the space.
\<close>

lemma whitespace_step_normalised:
  "\<not> ws_pair (re_sub U ws_run (str '' '') (strip text)) \<and>
   \<not> starts_ws (re_sub U ws_run (str '' '') (strip text)) \<and>
   \<not> ends_ws (re_sub U ws_run (str '' '') (strip text))"
proof -
  have s: "str '' '' = [32]" by (simp add: str_def)
  show ?thesis
    unfolding re_sub_def s
    using ws_sub_no_pair [of U True "strip text"] ws_sub_ends [of U True "strip text"]
      strip_no_start [of "text"] strip_no_end [of "text"]
    by (auto simp: starts_ws_sub)
qed

lemma clean_text_only_spaces:
  "c \<in> set (clean_text U text) \<Longrightarrow> py_isspace c \<Longrightarrow> c = 32"
  using clean_text_chars_sub [of U "text"] ws_sub_set [of c U True "strip text"] by auto

text \<open>
  C5. The property: for every input the result of \<open>clean_text\<close> has no two whitespace
  characters in a row and no whitespace at either end. The code does not keep it. It
  strips and collapses the whitespace first and deletes the marker spans and the special
  characters afterwards, so the spaces around a deleted character stay side by side, or
  at an end of the result: \<^verbatim>\<open>'a @ b'\<close> becomes \<^verbatim>\<open>'a  b'\<close> and \<^verbatim>\<open>'# a #'\<close> becomes \<^verbatim>\<open>' a '\<close>.
\<close>

theorem clean_text_whitespace_failing_input:
  "clean_text ascii_only (str ''a @ b'') = str ''a  b'' \<and>
   ws_pair (clean_text ascii_only (str ''a @ b'')) \<and>
   clean_text ascii_only (str ''# a #'') = str '' a '' \<and>
   starts_ws (clean_text ascii_only (str ''# a #'')) \<and>
   ends_ws (clean_text ascii_only (str ''# a #''))"
proof -
  have ev1: "clean_text ascii_only (str ''a @ b'') = str ''a  b''"
    by (simp add: text_eval)
  have ev2: "clean_text ascii_only (str ''# a #'') = str '' a ''"
    by (simp add: text_eval)
  show ?thesis unfolding ev1 ev2
    by (simp add: str_def starts_ws_def ends_ws_def py_isspace_def)
qed

section \<open>Segmentation\<close>

lemmas detect_eval = detect_story_boundaries_def detect_section_patterns_def story_indicators_def
  section_patterns_def all_caps_def title_colon_def long_title_def numbered_def lit_def re_match_def skip_blank_lines.simps in_cset.simps
  strip_def str_def py_isspace_def py_isalnum_def py_isdecimal_def Let_def

lemma five_lines_story: "detect_story_boundaries U five_lines = []"
  by (simp add: five_lines_def detect_eval)

lemma five_lines_section: "detect_section_patterns U five_lines = []"
  by (simp add: five_lines_def detect_eval)

lemma five_lines_split: "length (split_on 10 five_lines) = 5"
  by (simp add: five_lines_def str_def)

lemma five_lines_clean: "clean_text U five_lines = str ''one two three four five''"
  by (simp add: five_lines_def text_eval)

lemma five_lines_extract:
  "extract_content_sections U five_lines =
     [\<lparr>type = str ''content'',
       segment.title = str ''Full Content'',
       content = str ''one two three four five'',
       start_line = 1,
       end_line = 5,
       word_count = length (split_ws (str ''one two three four five'')),
       character_count = length (str ''one two three four five'')\<rparr>]"
  by (simp add: extract_content_sections_def five_lines_story five_lines_section
      five_lines_clean five_lines_split)

text \<open>
  C6. When neither detector finds a marker, \<open>extract_content_sections\<close> returns exactly one
  segment: type \<^verbatim>\<open>content\<close> (the full document), title \<^verbatim>\<open>Full Content\<close>, first line 1, last
  line the number of lines, content the cleaned whole text. No word count is tested on
  this path, so the result is not empty.
\<close>

theorem full_document_fallback:
  assumes "detect_story_boundaries U content' = []"
    and "detect_section_patterns U content' = []"
  shows "extract_content_sections U content' =
           [\<lparr>type = str ''content'',
             segment.title = str ''Full Content'',
             content = clean_text U content',
             start_line = 1,
             end_line = length (split_on 10 content'),
             word_count = length (split_ws (clean_text U content')),
             character_count = length (clean_text U content')\<rparr>]
         \<and> extract_content_sections U content' \<noteq> []"
  using assms by (simp add: extract_content_sections_def)

theorem full_document_fallback_witness:
  "extract_content_sections ascii_only five_lines =
     [\<lparr>type = str ''content'',
       segment.title = str ''Full Content'',
       content = str ''one two three four five'',
       start_line = 1,
       end_line = 5,
       word_count = 5,
       character_count = 23\<rparr>]"
proof -
  have wc: "length (split_ws (str ''one two three four five'')) = 5"
    by (simp add: split_ws_def str_def py_isspace_def)
  have cc: "length (str ''one two three four five'') = 23"
    by (simp add: str_def)
  show ?thesis
    using full_document_fallback [OF five_lines_story five_lines_section, of ascii_only]
    unfolding five_lines_clean five_lines_split wc cc by (rule conjunct1)
qed

lemma section_loop_counts:
  "\<forall>s \<in> set (section_loop U lines ms).
      word_count s = length (split_ws (content s)) \<and> character_count s = length (content s)"
  by (induction ms) (simp_all add: Let_def)

text \<open>
  C7. Every segment \<open>extract_content_sections\<close> produces stores the number of
  whitespace-separated words of its content as \<open>word_count\<close> and the length of its content
  as \<open>character_count\<close>; and the statistics of the assembled document are the sums of the
  segments' word and character counts and the number of segments.
\<close>

theorem counts_consistent:
  "(\<forall>s \<in> set (extract_content_sections U content').
      word_count s = length (split_ws (content s)) \<and> character_count s = length (content s)) \<and>
   total_words (statistics (book_json L path (extract_content_sections U content'))) =
     sum_list (map word_count (sections (book_json L path (extract_content_sections U content')))) \<and>
   total_characters (statistics (book_json L path (extract_content_sections U content'))) =
     sum_list (map character_count (sections (book_json L path (extract_content_sections U content')))) \<and>
   statistics.total_sections (statistics (book_json L path (extract_content_sections U content'))) =
     length (sections (book_json L path (extract_content_sections U content')))"
proof -
  have "\<forall>s \<in> set (extract_content_sections U content').
      word_count s = length (split_ws (content s)) \<and> character_count s = length (content s)"
    using section_loop_counts by (simp add: extract_content_sections_def Let_def)
  then show ?thesis by (simp add: book_json_def)
qed

theorem counts_consistent_witness:
  "extract_content_sections ascii_only five_lines =
     [\<lparr>type = str ''content'',
       segment.title = str ''Full Content'',
       content = str ''one two three four five'',
       start_line = 1,
       end_line = 5,
       word_count = length (split_ws (str ''one two three four five'')),
       character_count = length (str ''one two three four five'')\<rparr>] \<and>
   list_all (\<lambda>s. word_count s = length (split_ws (content s)) \<and>
                 character_count s = length (content s))
     (extract_content_sections ascii_only five_lines)"
  using counts_consistent [of ascii_only five_lines, THEN conjunct1]
    five_lines_extract [of ascii_only]
  by (simp only: list_all_iff simp_thms)

text \<open>
  C9. For the document \<^verbatim>\<open>"CHAPTER ONE\n\nshort text"\<close> the story detector finds nothing, the
  section detector finds the heading, the one segment has two words and is dropped, and
  the full-document segment is not produced: \<open>extract_content_sections\<close> returns the empty
  list, and the statistics of the assembled document are all zero.
\<close>

theorem markers_without_segments:
  "detect_story_boundaries U heading_only = [] \<and>
   detect_section_patterns U heading_only =
     [\<lparr>marker.title = str ''CHAPTER ONE'', line = 1, start_content = 3\<rparr>] \<and>
   extract_content_sections U heading_only = [] \<and>
   sections (book_json L path (extract_content_sections U heading_only)) = [] \<and>
   statistics (book_json L path (extract_content_sections U heading_only)) =
     \<lparr>total_sections = 0, stories = 0, total_words = 0, total_characters = 0\<rparr>"
proof -
  have a: "detect_story_boundaries U heading_only = []"
    by (simp add: heading_only_def detect_eval)
  have b: "detect_section_patterns U heading_only =
      [\<lparr>marker.title = str ''CHAPTER ONE'', line = 1, start_content = 3\<rparr>]"
    by (simp add: heading_only_def detect_eval)
  have c: "extract_content_sections U heading_only = []"
    by (simp add: extract_content_sections_def a b)
       (simp add: heading_only_def text_eval split_ws_def)
  show ?thesis unfolding c using a b by (simp add: book_json_def)
qed

section \<open>The two-chapter example\<close>

lemma words_Suc: "words (Suc n) = 119 # 111 # 114 # 100 # 32 # words n"
  by (simp add: words_def str_def)

lemma words_snoc: "words (Suc n) = (words n @ str ''word'') @ [32]"
  by (induction n) (simp_all add: words_def str_def)

lemma set_words: "set (words n) \<subseteq> {119, 111, 114, 100, 32}"
  by (induction n) (auto simp: words_Suc, simp add: words_def)

lemma length_words: "length (words n) = 5 * n"
  by (induction n) (simp_all add: words_Suc, simp add: words_def)

lemma split_on_append:
  "sep \<notin> set a \<Longrightarrow> split_on sep (a @ sep # b) = a # split_on sep b"
  by (induction a) auto

lemma split_on_single: "sep \<notin> set a \<Longrightarrow> split_on sep a = [a]"
  by (induction a) auto

lemma strip_trailing:
  assumes "s \<noteq> []" "\<not> py_isspace (hd s)" "\<not> py_isspace (last s)" "list_all py_isspace t"
  shows "strip (s @ t) = s"
proof -
  obtain a s' where s: "s = a # s'" using assms(1) by (cases s) auto
  obtain b s'' where s2: "s = s'' @ [b]" using assms(1) by (cases s rule: rev_cases) auto
  have l: "dropWhile py_isspace (s @ t) = s @ t" using s assms(2) by simp
  have "dropWhile py_isspace (rev t @ rev s) = dropWhile py_isspace (rev s)"
    using assms(4) by (intro dropWhile_append2) (simp add: list_all_iff)
  moreover have "dropWhile py_isspace (rev s) = rev s"
    using assms(3) s2 by simp
  ultimately have "dropWhile py_isspace (rev (s @ t)) = rev s"
    by simp
  then show ?thesis by (simp add: strip_def l)
qed

lemma sp_facts:
  "py_isspace 32" "py_isspace 10" "\<not> py_isspace 119" "\<not> py_isspace 111" "\<not> py_isspace 114"
  "\<not> py_isspace 100"
  by (simp_all add: py_isspace_def)

lemma collapse_words:
  "re_sub_from U ws_run [32] at (words (Suc n) @ t) =
     words (Suc n) @ re_sub_from U ws_run [32] False (dropWhile py_isspace t)"
proof (induction n arbitrary: at)
  case 0
  have "words 0 = []" by (simp add: words_def)
  then show ?case by (simp add: words_Suc ws_sub_Cons sp_facts)
next
  case (Suc n)
  have "re_sub_from U ws_run [32] at (words (Suc (Suc n)) @ t) =
        119 # 111 # 114 # 100 # 32 # re_sub_from U ws_run [32] False (words (Suc n) @ t)"
    by (subst words_Suc) (simp add: ws_sub_Cons sp_facts, simp add: words_Suc sp_facts)
  then show ?case by (simp add: Suc.IH words_Suc [of "Suc n"])
qed

lemma split_ws_words:
  "split_ws_from [] (words n @ t) = replicate n (str ''word'') @ split_ws_from [] t"
proof (induction n)
  case 0
  show ?case by (simp add: words_def)
next
  case (Suc n)
  then show ?case by (simp add: words_Suc sp_facts str_def)
qed

lemma nl_words: "10 \<notin> set (words n)"
  using set_words [of n] by auto

lemma two_chapters_lines:
  "split_on 10 (two_chapters n) =
     [str ''CHAPTER ONE'', [], words n, [], str ''CHAPTER TWO'', [], words n]"
proof -
  have h1: "10 \<notin> set (str ''CHAPTER ONE'')" and h2: "10 \<notin> set (str ''CHAPTER TWO'')"
    by (simp_all add: str_def)
  have e: "split_on 10 (10 # b) = [] # split_on 10 b" for b by simp
  show ?thesis
    unfolding two_chapters_def
    by (simp add: split_on_append [OF h1] split_on_append [OF h2] split_on_append [OF nl_words]
        e split_on_single [OF nl_words] del: split_on.simps)
qed

lemma strip_Cons: "\<not> py_isspace c \<Longrightarrow> strip (c # t) = c # rev (dropWhile py_isspace (rev t))"
proof -
  assume c: "\<not> py_isspace c"
  have "dropWhile py_isspace (rev t @ [c]) = dropWhile py_isspace (rev t) @ [c]"
    using c by (simp add: dropWhile_append)
  then show ?thesis using c by (simp add: strip_def)
qed

lemma strip_Nil: "strip [] = []"
  by (simp add: strip_def)

lemma strip_words_Cons: "\<exists>t. strip (words (Suc n)) = 119 # t"
  by (simp add: words_Suc strip_Cons sp_facts)

lemma no_story_w: "story_match U lines i (119 # t) story_indicators = []"
  by (simp add: story_indicators_def all_caps_def title_colon_def long_title_def numbered_def lit_def re_match_def in_cset.simps)

lemma no_section_w: "section_match U lines i (119 # t) section_patterns = []"
  by (simp add: section_patterns_def all_caps_def title_colon_def long_title_def numbered_def lit_def re_match_def in_cset.simps)

lemma strip_heading:
  "strip (str ''CHAPTER ONE'') = str ''CHAPTER ONE''" "strip (str ''CHAPTER TWO'') = str ''CHAPTER TWO''"
  by (simp_all add: strip_def str_def py_isspace_def)

lemma heading_length:
  "length (str ''CHAPTER ONE'') = 11" "length (str ''CHAPTER TWO'') = 11"
  "str ''CHAPTER ONE'' \<noteq> []" "str ''CHAPTER TWO'' \<noteq> []"
  by (simp_all add: str_def)

lemma skip_stop:
  "i < length lines \<Longrightarrow> strip (lines ! i) \<noteq> [] \<Longrightarrow> skip_blank_lines lines i = i"
  by (subst skip_blank_lines.simps) simp

lemma skip_step:
  "i < length lines \<Longrightarrow> strip (lines ! i) = [] \<Longrightarrow>
     skip_blank_lines lines i = skip_blank_lines lines (Suc i)"
  by (subst skip_blank_lines.simps) simp

lemma skip_end: "length lines \<le> i \<Longrightarrow> skip_blank_lines lines i = i"
  by (subst skip_blank_lines.simps) simp

lemma skip_1:
  "skip_blank_lines [a, [], words (Suc n), [], b, [], words (Suc n)] (Suc 0) = 2"
proof -
  obtain t where t: "strip (words (Suc n)) = 119 # t" using strip_words_Cons by blast
  let ?L = "[a, [], words (Suc n), [], b, [], words (Suc n)]"
  have "skip_blank_lines ?L (Suc 0) = skip_blank_lines ?L (Suc (Suc 0))"
    by (rule skip_step) (simp_all add: strip_Nil)
  also have "\<dots> = Suc (Suc 0)"
    by (rule skip_stop) (simp_all add: t)
  finally show ?thesis by simp
qed

lemma skip_5:
  "skip_blank_lines [a, [], words (Suc n), [], b, [], words (Suc n)] (Suc (Suc (Suc (Suc (Suc 0))))) = 6"
proof -
  obtain t where t: "strip (words (Suc n)) = 119 # t" using strip_words_Cons by blast
  let ?L = "[a, [], words (Suc n), [], b, [], words (Suc n)]"
  have "skip_blank_lines ?L (Suc (Suc (Suc (Suc (Suc 0))))) =
        skip_blank_lines ?L (Suc (Suc (Suc (Suc (Suc (Suc 0))))))"
    by (rule skip_step) (simp_all add: strip_Nil)
  also have "\<dots> = Suc (Suc (Suc (Suc (Suc (Suc 0)))))"
    by (rule skip_stop) (simp_all add: t)
  finally show ?thesis by simp
qed

lemma match_heading_section:
  "section_match U lines i (str ''CHAPTER ONE'') section_patterns =
     [\<lparr>marker.title = str ''CHAPTER ONE'', line = i + 1, start_content = skip_blank_lines lines (i + 1) + 1\<rparr>]"
  "section_match U lines i (str ''CHAPTER TWO'') section_patterns =
     [\<lparr>marker.title = str ''CHAPTER TWO'', line = i + 1, start_content = skip_blank_lines lines (i + 1) + 1\<rparr>]"
  by (simp_all add: section_patterns_def all_caps_def title_colon_def long_title_def re_match_def in_cset.simps str_def py_isspace_def)

lemma match_heading_story:
  "story_match U lines i (str ''CHAPTER ONE'') story_indicators =
     (if int (skip_blank_lines lines (i + 1)) < int (length lines) - 10
      then [\<lparr>marker.title = str ''CHAPTER ONE'', line = i + 1, start_content = skip_blank_lines lines (i + 1) + 1\<rparr>]
      else [])"
  "story_match U lines i (str ''CHAPTER TWO'') story_indicators =
     (if int (skip_blank_lines lines (i + 1)) < int (length lines) - 10
      then [\<lparr>marker.title = str ''CHAPTER TWO'', line = i + 1, start_content = skip_blank_lines lines (i + 1) + 1\<rparr>]
      else [])"
  by (simp_all add: story_indicators_def all_caps_def title_colon_def long_title_def numbered_def lit_def re_match_def in_cset.simps str_def py_isspace_def)

lemma two_chapters_story: "detect_story_boundaries U (two_chapters (Suc n)) = []"
proof -
  obtain t where t: "strip (words (Suc n)) = 119 # t" using strip_words_Cons by blast
  show ?thesis
    by (simp add: detect_story_boundaries_def two_chapters_lines strip_Nil strip_heading t
        no_story_w match_heading_story skip_1 skip_5 Let_def heading_length)
qed

lemma two_chapters_section:
  "detect_section_patterns U (two_chapters (Suc n)) =
     [\<lparr>marker.title = str ''CHAPTER ONE'', line = 1, start_content = 3\<rparr>,
      \<lparr>marker.title = str ''CHAPTER TWO'', line = 5, start_content = 7\<rparr>]"
proof -
  obtain t where t: "strip (words (Suc n)) = 119 # t" using strip_words_Cons by blast
  show ?thesis
    by (simp add: detect_section_patterns_def two_chapters_lines strip_Nil strip_heading t
        no_section_w match_heading_section skip_1 skip_5 Let_def heading_length)
qed

lemma kept_ascii:
  "in_cset U (In kept_chars) 119" "in_cset U (In kept_chars) 111" "in_cset U (In kept_chars) 114"
  "in_cset U (In kept_chars) 100" "in_cset U (In kept_chars) 32" "in_cset U (In kept_chars) 10"
  by (simp_all add: in_kept_chars word_char_def py_isalnum_def py_isspace_def)

lemma kept_words: "list_all (in_cset U (In kept_chars)) (words n)"
  using set_words [of n] kept_ascii [of U] by (auto simp: list_all_iff)

lemma no_marker_words: "10218 \<notin> set (words n)"
  using set_words [of n] by auto

lemma kept_heading: "list_all (in_cset U (In kept_chars)) (str ''CHAPTER TWO'')"
  by (simp add: str_def in_kept_chars word_char_def py_isalnum_def py_isspace_def)

lemma collapse_heading:
  "re_sub_from U ws_run [32] at (str ''CHAPTER TWO'') = str ''CHAPTER TWO''"
  by (simp add: str_def ws_sub_Cons ws_sub_Nil py_isspace_def)

lemma collapse_word:
  "re_sub_from U ws_run [32] at (str ''word'') = str ''word''"
  by (simp add: str_def ws_sub_Cons ws_sub_Nil py_isspace_def)

lemma lstrip_heading:
  "dropWhile py_isspace (str ''CHAPTER TWO'') = str ''CHAPTER TWO''"
  "dropWhile py_isspace (str ''word'') = str ''word''"
  by (simp_all add: str_def py_isspace_def)

lemma hd_words: "hd (words (Suc n) @ t) = 119"
  by (simp add: words_Suc)

lemma clean_first:
  "clean_text U (words (Suc n) @ 10 # 10 # str ''CHAPTER TWO'' @ [10]) =
     words (Suc n) @ str ''CHAPTER TWO''"
proof -
  let ?s = "words (Suc n) @ 10 # 10 # str ''CHAPTER TWO''"
  have k: "list_all (in_cset U (In kept_chars)) (?s @ [10])"
    using kept_words [of U "Suc n"] kept_heading [of U] kept_ascii(6) [of U] by simp
  have m: "10218 \<notin> set (?s @ [10])"
    using no_marker_words [of "Suc n"] by (simp add: str_def)
  have "strip (?s @ [10]) = ?s"
    by (rule strip_trailing) (simp_all add: words_Suc sp_facts, simp_all add: str_def py_isspace_def)
  then have "clean_text U (?s @ [10]) = re_sub_from U ws_run [32] True ?s"
    using clean_text_kept [OF k m] by simp
  also have "\<dots> = words (Suc n) @ str ''CHAPTER TWO''"
    by (simp add: collapse_words sp_facts collapse_heading lstrip_heading)
  finally show ?thesis by simp
qed

lemma clean_second:
  "clean_text U (words (Suc (Suc n))) = words (Suc n) @ str ''word''"
proof -
  let ?s = "words (Suc n) @ str ''word''"
  have w: "words (Suc (Suc n)) = ?s @ [32]" by (rule words_snoc)
  have k: "list_all (in_cset U (In kept_chars)) (?s @ [32])"
    using kept_words [of U "Suc (Suc n)"] unfolding w .
  have m: "10218 \<notin> set (?s @ [32])"
    using no_marker_words [of "Suc (Suc n)"] unfolding w .
  have "strip (?s @ [32]) = ?s"
    by (rule strip_trailing) (simp_all add: words_Suc sp_facts, simp_all add: str_def py_isspace_def)
  then have "clean_text U (?s @ [32]) = re_sub_from U ws_run [32] True ?s"
    using clean_text_kept [OF k m] by simp
  also have "\<dots> = ?s"
    by (simp add: collapse_words collapse_word lstrip_heading)
  finally show ?thesis unfolding w .
qed

lemma count_first:
  "length (split_ws (words n @ str ''CHAPTER TWO'')) = n + 2"
  by (simp add: split_ws_def split_ws_words) (simp add: str_def py_isspace_def)

lemma count_second:
  "length (split_ws (words n @ str ''word'')) = n + 1"
  by (simp add: split_ws_def split_ws_words) (simp add: str_def py_isspace_def)

lemma two_chapters_general:
  assumes "48 \<le> n"
  shows "extract_content_sections U (two_chapters (Suc (Suc n))) =
     [\<lparr>type = str ''story'', segment.title = str ''CHAPTER ONE'',
       content = words (Suc (Suc n)) @ str ''CHAPTER TWO'',
       start_line = 3, end_line = 6,
       word_count = n + 4, character_count = 5 * n + 21\<rparr>,
      \<lparr>type = str ''story'', segment.title = str ''CHAPTER TWO'',
       content = words (Suc n) @ str ''word'',
       start_line = 7, end_line = 7,
       word_count = n + 2, character_count = 5 * n + 9\<rparr>]"
proof -
  have len: "length (str ''CHAPTER TWO'') = 11" "length (str ''word'') = 4"
    by (simp_all add: str_def)
  show ?thesis
    using assms
    by (simp add: extract_content_sections_def two_chapters_story two_chapters_section
        two_chapters_lines Let_def clean_first clean_second count_first count_second
        length_words len)
qed


text \<open>
  C1. The document \<^verbatim>\<open>"CHAPTER ONE\n\n" + "word " * 60 + "\n\nCHAPTER TWO\n\n" + "word " * 60\<close>
  yields exactly two segments, both of type \<^verbatim>\<open>story\<close>, titled \<^verbatim>\<open>CHAPTER ONE\<close> and
  \<^verbatim>\<open>CHAPTER TWO\<close> in this order. Their word counts are 62 and 60: the first segment
  runs to the content start of the second and so holds the two words of the second
  heading as well.
\<close>

theorem two_chapters_segments:
  "extract_content_sections U (two_chapters 60) =
     [\<lparr>type = str ''story'', segment.title = str ''CHAPTER ONE'',
       content = words 60 @ str ''CHAPTER TWO'',
       start_line = 3, end_line = 6,
       word_count = 62, character_count = 311\<rparr>,
      \<lparr>type = str ''story'', segment.title = str ''CHAPTER TWO'',
       content = words 59 @ str ''word'',
       start_line = 7, end_line = 7,
       word_count = 60, character_count = 299\<rparr>]"
  using two_chapters_general [of 58 U] by simp

section \<open>chunk_text keeps the words\<close>

lemma split_ws_from_word:
  "\<not> list_ex py_isspace w \<Longrightarrow> split_ws_from cur (w @ s) = split_ws_from (cur @ w) s"
  by (induction w arbitrary: cur) simp_all

lemma split_ws_single: "good_word w \<Longrightarrow> split_ws w = [w]"
  using split_ws_from_word [of w "[]" "[]"] by (simp add: split_ws_def good_word_def)

lemma split_ws_from_sep:
  "split_ws_from cur (a @ 32 # b) = split_ws_from cur a @ split_ws_from [] b"
proof (induction a arbitrary: cur)
  case Nil
  show ?case by (simp add: py_isspace_def)
next
  case (Cons c a)
  then show ?case by simp
qed

lemma split_ws_sep: "split_ws (a @ 32 # b) = split_ws a @ split_ws b"
  by (simp add: split_ws_def split_ws_from_sep)

lemma split_ws_join:
  "split_ws (join (str '' '') cs) = concat (map split_ws cs)"
proof (induction "str '' ''" cs rule: join.induct)
  case 1
  show ?case by (simp add: split_ws_def)
next
  case (2 x)
  show ?case by simp
next
  case (3 x y ys)
  have "join (str '' '') (x # y # ys) = x @ 32 # join (str '' '') (y # ys)"
    by (simp add: str_def)
  then show ?case using 3 by (simp add: split_ws_sep)
qed

lemma split_ws_Nil: "split_ws [] = []"
  by (simp add: split_ws_def)

lemma concat_split_words: "list_all good_word ws \<Longrightarrow> concat (map split_ws ws) = ws"
  by (induction ws) (simp_all add: split_ws_single)

lemma split_ws_join_words:
  "list_all good_word ws \<Longrightarrow> split_ws (join (str '' '') ws) = ws"
  by (simp add: split_ws_join concat_split_words)

lemma split_ws_from_good:
  "\<not> list_ex py_isspace cur \<Longrightarrow> list_all good_word (split_ws_from cur s)"
  by (induction s arbitrary: cur) (simp_all add: good_word_def)

lemma split_ws_good: "list_all good_word (split_ws s)"
  by (simp add: split_ws_def split_ws_from_good)

lemma chunk_loop_words:
  assumes "list_all good_word ws" "list_all good_word cur"
    and "chunk_loop chunk_size ws chunks cur sz = (chunks', cur')"
  shows "concat (map split_ws chunks') @ cur' = concat (map split_ws chunks) @ cur @ ws \<and>
         list_all good_word cur'"
  using assms
proof (induction ws arbitrary: chunks cur sz)
  case Nil
  then show ?case by simp
next
  case (Cons w ws)
  show ?case
  proof (cases "sz + int (length w) + 1 > chunk_size \<and> cur \<noteq> []")
    case True
    then have "chunk_loop chunk_size ws (chunks @ [join (str '' '') cur]) [w] (int (length w)) =
        (chunks', cur')"
      using Cons.prems(3) by simp
    moreover have "list_all good_word [w]" using Cons.prems(1) by simp
    moreover have "list_all good_word ws" using Cons.prems(1) by simp
    ultimately have "concat (map split_ws chunks') @ cur' =
        concat (map split_ws (chunks @ [join (str '' '') cur])) @ [w] @ ws \<and>
        list_all good_word cur'"
      using Cons.IH by blast
    then show ?thesis using Cons.prems(2) by (simp add: split_ws_join_words)
  next
    case False
    then have "chunk_loop chunk_size ws chunks (cur @ [w]) (sz + int (length w) + 1) =
        (chunks', cur')"
      using Cons.prems(3) by auto
    moreover have "list_all good_word (cur @ [w])" using Cons.prems(1,2) by simp
    moreover have "list_all good_word ws" using Cons.prems(1) by simp
    ultimately have "concat (map split_ws chunks') @ cur' =
        concat (map split_ws chunks) @ (cur @ [w]) @ ws \<and> list_all good_word cur'"
      using Cons.IH by blast
    then show ?thesis by simp
  qed
qed

text \<open>
  C10. For every text and every \<open>chunk_size\<close> (a positive one in particular), joining the
  chunks of \<open>chunk_text\<close> with single spaces and splitting the result on whitespace gives
  the word list of the text itself: no word is dropped, duplicated or moved.
\<close>

theorem chunk_text_words:
  "split_ws (join (str '' '') (chunk_text text chunk_size)) = split_ws text"
proof -
  obtain chunks' cur' where r: "chunk_loop chunk_size (split_ws text) [] [] 0 = (chunks', cur')"
    by (cases "chunk_loop chunk_size (split_ws text) [] [] 0") auto
  have inv: "concat (map split_ws chunks') @ cur' = split_ws text \<and> list_all good_word cur'"
    using chunk_loop_words [OF split_ws_good _ r] by simp
  show ?thesis
  proof (cases "cur' = []")
    case True
    then show ?thesis using inv r by (simp add: chunk_text_def split_ws_join)
  next
    case False
    then show ?thesis using inv r by (simp add: chunk_text_def split_ws_join concat_split_words)
  qed
qed

theorem chunk_text_words_witness:
  "chunk_text (str ''aa bb  cc dddd e'') 6 = [str ''aa bb'', str ''cc'', str ''dddd e''] \<and>
   split_ws (join (str '' '') [str ''aa bb'', str ''cc'', str ''dddd e'']) =
     split_ws (str ''aa bb  cc dddd e'')"
proof -
  have ev: "chunk_text (str ''aa bb  cc dddd e'') 6 = [str ''aa bb'', str ''cc'', str ''dddd e'']"
    by (simp add: chunk_text_def split_ws_def str_def py_isspace_def)
  show ?thesis
    using chunk_text_words [of "str ''aa bb  cc dddd e''" 6] unfolding ev by (simp add: ev)
qed

section \<open>Which lines the detectors mark\<close>







lemma heading_only_split:
  "split_on 10 heading_only = [str ''CHAPTER ONE'', [], str ''short text'']"
  by (simp add: heading_only_def str_def)



subsection \<open>What the patterns match\<close>

lemma ex_nat_split: "(\<exists>k::nat. P k) \<longleftrightarrow> P 0 \<or> (\<exists>k. P (Suc k))"
proof
  assume "\<exists>k. P k"
  then obtain k where k: "P k" by blast
  show "P 0 \<or> (\<exists>k. P (Suc k))"
  proof (cases k)
    case 0
    then show ?thesis using k by simp
  next
    case (Suc j)
    then show ?thesis using k by blast
  qed
next
  assume "P 0 \<or> (\<exists>k. P (Suc k))"
  then show "\<exists>k. P k" by blast
qed

lemma rep_nil:
  "re_end U (Rep cs n # p) at [] \<noteq> None \<longleftrightarrow>
     (\<exists>k. n \<le> k \<and> k \<le> length ([]::nat list) \<and> list_all (in_cset U cs) (take k []) \<and>
          re_end U p (at \<and> k = 0) (drop k []) \<noteq> None)"
  by simp


lemma rep_cons_in:
  assumes "in_cset U cs c"
  shows "re_end U (Rep cs n # p) at (c # s) \<noteq> None \<longleftrightarrow>
        re_end U (Rep cs (n - 1) # p) False s \<noteq> None \<or> (n = 0 \<and> re_end U p at (c # s) \<noteq> None)"
proof (cases "re_end U (Rep cs (n - 1) # p) False s")
  case None
  then show ?thesis using assms by simp
next
  case (Some t)
  then show ?thesis using assms by simp
qed

lemma rep_cons_out:
  assumes "\<not> in_cset U cs c"
  shows "re_end U (Rep cs n # p) at (c # s) \<noteq> None \<longleftrightarrow>
        (n = 0 \<and> re_end U p at (c # s) \<noteq> None)"
  using assms by simp

lemma re_end_Rep_iff:
  "re_end U (Rep cs n # p) at s \<noteq> None \<longleftrightarrow>
     (\<exists>k. n \<le> k \<and> k \<le> length s \<and> list_all (in_cset U cs) (take k s) \<and>
          re_end U p (at \<and> k = 0) (drop k s) \<noteq> None)"
proof (induction s arbitrary: n at)
  case Nil
  show ?case by (rule rep_nil)
next
  case (Cons c s)
  have ih: "re_end U (Rep cs (n - 1) # p) False s \<noteq> None \<longleftrightarrow>
      (\<exists>k. n - 1 \<le> k \<and> k \<le> length s \<and> list_all (in_cset U cs) (take k s) \<and>
          re_end U p (False \<and> k = 0) (drop k s) \<noteq> None)"
    by (rule Cons.IH)
  have rhs: "(\<exists>k. n \<le> k \<and> k \<le> length (c # s) \<and> list_all (in_cset U cs) (take k (c # s)) \<and>
          re_end U p (at \<and> k = 0) (drop k (c # s)) \<noteq> None) \<longleftrightarrow>
      (n = 0 \<and> re_end U p at (c # s) \<noteq> None) \<or>
      (in_cset U cs c \<and> (\<exists>k. n - 1 \<le> k \<and> k \<le> length s \<and>
          list_all (in_cset U cs) (take k s) \<and> re_end U p False (drop k s) \<noteq> None))"
    by (subst ex_nat_split) (simp add: le_diff_conv, blast)
  show ?case
  proof (cases "in_cset U cs c")
    case True
    show ?thesis unfolding rhs rep_cons_in [OF True] ih using True by auto
  next
    case False
    show ?thesis unfolding rhs rep_cons_out [OF False] using False by auto
  qed
qed


lemma re_end_Eol: "10 \<notin> set s \<Longrightarrow> re_end U [Eol] at s \<noteq> None \<longleftrightarrow> s = []"
  by auto

lemma re_end_lit:
  "re_end U (lit kw @ p) at s \<noteq> None \<longleftrightarrow>
     (\<exists>t. s = str kw @ t \<and> re_end U p (at \<and> kw = []) t \<noteq> None)"
proof (induction kw arbitrary: at s)
  case Nil
  show ?case by (simp add: lit_def str_def)
next
  case (Cons k kw)
  show ?case
  proof (cases s)
    case Nil
    then show ?thesis by (simp add: lit_def str_def in_cset.simps)
  next
    case (Cons c s')
    have "re_end U (lit (k # kw) @ p) at (c # s') \<noteq> None \<longleftrightarrow>
        c = of_char k \<and> re_end U (lit kw @ p) False s' \<noteq> None"
      by (simp add: lit_def in_cset.simps)
    then show ?thesis using Cons Cons.IH [of False s'] by (auto simp: str_def)
  qed
qed

lemma in_upper: "in_cset U (In [Rng 65 90]) c = upper c"
  by (simp add: in_cset.simps upper_def)

lemma in_upper_space: "in_cset U (In [Rng 65 90, Space]) = (\<lambda>c. upper c \<or> py_isspace c)"
  by (rule ext) (simp add: in_cset.simps upper_def)

lemma in_lower_space: "in_cset U (In [Rng 97 122, Space]) = (\<lambda>c. lower c \<or> py_isspace c)"
  by (rule ext) (simp add: in_cset.simps lower_def)

lemma in_digit: "in_cset U (In [Digit]) = py_isdecimal U"
  by (rule ext) (simp add: in_cset.simps)

lemma rep_to_end:
  assumes "10 \<notin> set s"
  shows "re_end U [Rep cs n, Eol] at s \<noteq> None \<longleftrightarrow> n \<le> length s \<and> list_all (in_cset U cs) s"
proof -
  have d: "re_end U [Eol] b (drop k s) \<noteq> None \<longleftrightarrow> length s \<le> k" for k b
    using assms in_set_dropD [of 10 k s] re_end_Eol [of "drop k s" U b] by auto
  show ?thesis
    unfolding re_end_Rep_iff d
  proof
    assume "\<exists>k. n \<le> k \<and> k \<le> length s \<and> list_all (in_cset U cs) (take k s) \<and> length s \<le> k"
    then obtain k where "n \<le> k" "k = length s" "list_all (in_cset U cs) (take k s)" by auto
    then show "n \<le> length s \<and> list_all (in_cset U cs) s" by simp
  next
    assume "n \<le> length s \<and> list_all (in_cset U cs) s"
    then have "n \<le> length s \<and> length s \<le> length s \<and>
        list_all (in_cset U cs) (take (length s) s) \<and> length s \<le> length s" by simp
    then show "\<exists>k. n \<le> k \<and> k \<le> length s \<and> list_all (in_cset U cs) (take k s) \<and> length s \<le> k"
      by blast
  qed
qed

lemma head_rep_eol:
  assumes "10 \<notin> set l"
  shows "re_match U [Bol, One a, Rep b n, Eol] l \<longleftrightarrow>
     (\<exists>c cs. l = c # cs \<and> in_cset U a c \<and> n \<le> length cs \<and> list_all (in_cset U b) cs)"
proof (cases l)
  case Nil
  then show ?thesis by (simp add: re_match_def)
next
  case (Cons c cs)
  have "10 \<notin> set cs" using assms Cons by simp
  then have "re_end U [Rep b n, Eol] False cs \<noteq> None \<longleftrightarrow>
      n \<le> length cs \<and> list_all (in_cset U b) cs"
    by (rule rep_to_end)
  moreover have "re_match U [Bol, One a, Rep b n, Eol] (c # cs) \<longleftrightarrow>
      in_cset U a c \<and> re_end U [Rep b n, Eol] False cs \<noteq> None"
    by (simp add: re_match_def del: re_end.simps(7) re_end.simps(6))
  ultimately show ?thesis using Cons by simp
qed

lemma all_caps_iff:
  assumes "10 \<notin> set l"
  shows "re_match U all_caps l \<longleftrightarrow>
     (\<exists>c cs. l = c # cs \<and> upper c \<and> cs \<noteq> [] \<and> list_all (\<lambda>x. upper x \<or> py_isspace x) cs)"
  unfolding all_caps_def head_rep_eol [OF assms] in_upper in_upper_space
  by (auto simp: Suc_le_eq)

lemma long_title_iff:
  assumes "10 \<notin> set l"
  shows "re_match U (long_title n) l \<longleftrightarrow>
     (\<exists>c cs. l = c # cs \<and> upper c \<and> n \<le> length cs \<and> list_all (\<lambda>x. lower x \<or> py_isspace x) cs)"
  unfolding long_title_def head_rep_eol [OF assms] in_upper in_lower_space
  by simp

lemma colon_end:
  assumes "10 \<notin> set s"
  shows "re_end U [One (In [Ch 58]), Eol] at s \<noteq> None \<longleftrightarrow> s = [58]"
proof (cases s)
  case Nil
  then show ?thesis by simp
next
  case (Cons c r)
  have "10 \<notin> set r" using assms Cons by simp
  then have "re_end U [Eol] False r \<noteq> None \<longleftrightarrow> r = []" by (rule re_end_Eol)
  then show ?thesis using Cons by (auto simp: in_cset.simps)
qed

lemma title_colon_iff:
  assumes "10 \<notin> set l"
  shows "re_match U title_colon l \<longleftrightarrow>
     (\<exists>c cs. l = c # cs @ [58] \<and> upper c \<and> cs \<noteq> [] \<and>
        list_all (\<lambda>x. lower x \<or> py_isspace x) cs)"
proof (cases l)
  case Nil
  then show ?thesis by (simp add: re_match_def title_colon_def)
next
  case (Cons c r)
  have nl: "10 \<notin> set (drop k r)" for k
    using assms Cons in_set_dropD [of 10 k r] by auto
  have m: "re_match U title_colon (c # r) \<longleftrightarrow>
      upper c \<and> re_end U [Rep (In [Rng 97 122, Space]) 1, One (In [Ch 58]), Eol] False r \<noteq> None"
    by (simp add: re_match_def title_colon_def in_upper del: re_end.simps(7) re_end.simps(6))
  have r: "re_end U [Rep (In [Rng 97 122, Space]) 1, One (In [Ch 58]), Eol] False r \<noteq> None \<longleftrightarrow>
      (\<exists>k. 1 \<le> k \<and> k \<le> length r \<and> list_all (\<lambda>x. lower x \<or> py_isspace x) (take k r) \<and>
           drop k r = [58])"
    unfolding re_end_Rep_iff in_lower_space using colon_end [OF nl] by simp
  have "(\<exists>k. 1 \<le> k \<and> k \<le> length r \<and> list_all (\<lambda>x. lower x \<or> py_isspace x) (take k r) \<and>
           drop k r = [58]) \<longleftrightarrow>
        (\<exists>cs. r = cs @ [58] \<and> cs \<noteq> [] \<and> list_all (\<lambda>x. lower x \<or> py_isspace x) cs)"
  proof
    assume "\<exists>k. 1 \<le> k \<and> k \<le> length r \<and> list_all (\<lambda>x. lower x \<or> py_isspace x) (take k r) \<and>
           drop k r = [58]"
    then obtain k where k: "1 \<le> k" "k \<le> length r"
        "list_all (\<lambda>x. lower x \<or> py_isspace x) (take k r)" "drop k r = [58]" by blast
    have "r = take k r @ [58]" using k(4) append_take_drop_id [of k r] by simp
    moreover have "take k r \<noteq> []" using k(1,2) by auto
    ultimately show "\<exists>cs. r = cs @ [58] \<and> cs \<noteq> [] \<and> list_all (\<lambda>x. lower x \<or> py_isspace x) cs"
      using k(3) by blast
  next
    assume "\<exists>cs. r = cs @ [58] \<and> cs \<noteq> [] \<and> list_all (\<lambda>x. lower x \<or> py_isspace x) cs"
    then obtain cs where cs: "r = cs @ [58]" "cs \<noteq> []"
        "list_all (\<lambda>x. lower x \<or> py_isspace x) cs" by blast
    have "1 \<le> length cs \<and> length cs \<le> length r \<and>
        list_all (\<lambda>x. lower x \<or> py_isspace x) (take (length cs) r) \<and> drop (length cs) r = [58]"
      using cs by (cases cs) simp_all
    then show "\<exists>k. 1 \<le> k \<and> k \<le> length r \<and>
        list_all (\<lambda>x. lower x \<or> py_isspace x) (take k r) \<and> drop k r = [58]" by blast
  qed
  then show ?thesis using Cons m r by auto
qed

lemma digits_start:
  "re_end U [Rep (In [Digit]) 1] at s \<noteq> None \<longleftrightarrow> (\<exists>d rest. s = d # rest \<and> py_isdecimal U d)"
  by (cases s) (simp_all add: re_end_Rep in_digit)

lemma numbered_iff:
  "re_match U (numbered kw) l \<longleftrightarrow>
     (\<exists>ws d rest. l = str kw @ ws @ d # rest \<and> ws \<noteq> [] \<and> list_all py_isspace ws \<and>
        py_isdecimal U d)"
proof -
  have sp: "re_end U [Rep (In [Space]) 1, Rep (In [Digit]) 1] b t \<noteq> None \<longleftrightarrow>
      (\<exists>ws d rest. t = ws @ d # rest \<and> ws \<noteq> [] \<and> list_all py_isspace ws \<and> py_isdecimal U d)"
    for b t
  proof
    assume "re_end U [Rep (In [Space]) 1, Rep (In [Digit]) 1] b t \<noteq> None"
    then obtain k where k: "1 \<le> k" "k \<le> length t" "list_all py_isspace (take k t)"
        "re_end U [Rep (In [Digit]) 1] (b \<and> k = 0) (drop k t) \<noteq> None"
      unfolding re_end_Rep_iff by auto
    then obtain d rest where d: "drop k t = d # rest" "py_isdecimal U d"
      using digits_start by blast
    have "t = take k t @ d # rest" using d(1) append_take_drop_id [of k t] by simp
    moreover have "take k t \<noteq> []" using k(1,2) by auto
    ultimately show "\<exists>ws d rest. t = ws @ d # rest \<and> ws \<noteq> [] \<and> list_all py_isspace ws \<and>
        py_isdecimal U d"
      using k(3) d(2) by blast
  next
    assume "\<exists>ws d rest. t = ws @ d # rest \<and> ws \<noteq> [] \<and> list_all py_isspace ws \<and>
        py_isdecimal U d"
    then obtain ws d rest where w: "t = ws @ d # rest" "ws \<noteq> []" "list_all py_isspace ws"
        "py_isdecimal U d" by blast
    have "re_end U [Rep (In [Digit]) 1] (b \<and> length ws = 0) (drop (length ws) t) \<noteq> None"
      using w(1,4) digits_start [of U _ "d # rest"] by simp
    then have "1 \<le> length ws \<and> length ws \<le> length t \<and>
        list_all (in_cset U (In [Space])) (take (length ws) t) \<and>
        re_end U [Rep (In [Digit]) 1] (b \<and> length ws = 0) (drop (length ws) t) \<noteq> None"
      using w by (cases ws) simp_all
    then show "re_end U [Rep (In [Space]) 1, Rep (In [Digit]) 1] b t \<noteq> None"
      unfolding re_end_Rep_iff by blast
  qed
  have "re_match U (numbered kw) l \<longleftrightarrow>
      re_end U (lit kw @ [Rep (In [Space]) 1, Rep (In [Digit]) 1]) True l \<noteq> None"
    by (simp add: re_match_def numbered_def)
  also have "\<dots> \<longleftrightarrow> (\<exists>t. l = str kw @ t \<and>
      re_end U [Rep (In [Space]) 1, Rep (In [Digit]) 1] (True \<and> kw = []) t \<noteq> None)"
    by (rule re_end_lit)
  finally show ?thesis unfolding sp by blast
qed

lemma split_on_no_sep: "l \<in> set (split_on sep s) \<Longrightarrow> sep \<notin> set l"
proof (induction s arbitrary: l)
  case Nil
  then show ?case by simp
next
  case (Cons c s)
  show ?case
  proof (cases "c = sep")
    case True
    then show ?thesis using Cons by auto
  next
    case False
    show ?thesis
    proof (cases "split_on sep s")
      case Nil
      then show ?thesis using Cons.prems False by simp
    next
      case (Cons h t)
      then have "sep \<notin> set h" using Cons.IH [of h] by simp
      then show ?thesis using Cons Cons.prems Cons.IH False by auto
    qed
  qed
qed

lemma stripped_line_no_newline:
  "i < length (split_on 10 s) \<Longrightarrow> 10 \<notin> set (strip (split_on 10 s ! i))"
  using split_on_no_sep [of "split_on 10 s ! i" 10 s] set_strip [of "split_on 10 s ! i"]
  by auto

lemma story_indicators_match:
  assumes "10 \<notin> set l"
  shows "list_ex (\<lambda>p. re_match U p l) story_indicators \<longleftrightarrow>
     is_long_title 15 l \<or> is_numbered U ''Chapter'' l \<or> is_numbered U ''Part'' l \<or>
     is_numbered U ''Story'' l \<or> is_all_caps l"
  by (simp add: story_indicators_def long_title_iff [OF assms] all_caps_iff [OF assms]
      numbered_iff is_all_caps_def is_long_title_def is_numbered_def)

lemma section_patterns_match:
  assumes "10 \<notin> set l"
  shows "list_ex (\<lambda>p. re_match U p l) section_patterns \<longleftrightarrow>
     is_all_caps l \<or> is_title_colon l \<or> is_numbered U ''Chapter'' l \<or>
     is_numbered U ''Part'' l \<or> is_numbered U ''Section'' l \<or> is_numbered U ''Story'' l \<or>
     is_long_title 10 l"
  by (simp add: section_patterns_def long_title_iff [OF assms] all_caps_iff [OF assms]
      title_colon_iff [OF assms] numbered_iff is_all_caps_def is_long_title_def
      is_numbered_def is_title_colon_def)

subsection \<open>The section detector\<close>

lemma section_match_eq:
  "section_match U lines i l ps =
     (if list_ex (\<lambda>p. re_match U p l) ps
      then [\<lparr>marker.title = l, line = i + 1,
             start_content = skip_blank_lines lines (i + 1) + 1\<rparr>]
      else [])"
  by (induction ps) (simp_all add: Let_def)

lemma section_scan_set:
  "m \<in> set (section_scan U lines i rest) \<longleftrightarrow>
     (\<exists>j < length rest. strip (rest ! j) \<noteq> [] \<and>
        m \<in> set (section_match U lines (i + j) (strip (rest ! j)) section_patterns))"
proof (induction rest arbitrary: i)
  case Nil
  show ?case by simp
next
  case (Cons raw rest)
  have split: "(\<exists>j < length (raw # rest). P j) \<longleftrightarrow> P 0 \<or> (\<exists>j < length rest. P (Suc j))" for P
    by (auto simp: less_Suc_eq_0_disj)
  show ?case
    by (subst split) (auto simp: Cons.IH Let_def)
qed

lemma section_marker_line:
  "m \<in> set (section_match U lines k l ps) \<Longrightarrow> line m = k + 1"
  by (auto simp: section_match_eq split: if_splits)

lemma pattern_sets:
  "set section_patterns =
     (set story_indicators - {long_title 15}) \<union>
     {long_title 10, title_colon, numbered ''Section''}"
  by (auto simp: section_patterns_def story_indicators_def long_title_def all_caps_def
      title_colon_def numbered_def lit_def)

text \<open>
  C2, as the code has it. The section detector returns a marker for a line (and then the
  marker with the stripped text as title) exactly when the stripped line is not empty and
  matches one of its seven patterns, however few lines follow and whatever its length. Its
  patterns are those of the story detector with the floor of the title-case pattern lowered
  from 15 to 10 characters after the capital (not removed), and two more: the title-case
  line that ends in a colon, and \<^verbatim>\<open>Section\<close> with a number. In words, a line matches one of
  the seven when it is all capitals, a title-case line ending in a colon, one of the
  keywords \<^verbatim>\<open>Chapter\<close>, \<^verbatim>\<open>Part\<close>, \<^verbatim>\<open>Section\<close>, \<^verbatim>\<open>Story\<close> with a number, or a title-case line
  with at least 10 characters after the capital.
\<close>

theorem section_marker_iff:
  assumes "i < length (split_on 10 content')"
  shows "(\<exists>m \<in> set (detect_section_patterns U content'). line m = i + 1) =
           (strip (split_on 10 content' ! i) \<noteq> [] \<and>
            list_ex (\<lambda>p. re_match U p (strip (split_on 10 content' ! i))) section_patterns) \<and>
         (\<lparr>marker.title = strip (split_on 10 content' ! i), line = i + 1,
           start_content = skip_blank_lines (split_on 10 content') (i + 1) + 1\<rparr>
            \<in> set (detect_section_patterns U content')) =
           (strip (split_on 10 content' ! i) \<noteq> [] \<and>
            list_ex (\<lambda>p. re_match U p (strip (split_on 10 content' ! i))) section_patterns) \<and>
         set section_patterns =
           (set story_indicators - {long_title 15}) \<union>
           {long_title 10, title_colon, numbered ''Section''} \<and>
         list_ex (\<lambda>p. re_match U p (strip (split_on 10 content' ! i))) section_patterns =
           (is_all_caps (strip (split_on 10 content' ! i)) \<or>
            is_title_colon (strip (split_on 10 content' ! i)) \<or>
            is_numbered U ''Chapter'' (strip (split_on 10 content' ! i)) \<or>
            is_numbered U ''Part'' (strip (split_on 10 content' ! i)) \<or>
            is_numbered U ''Section'' (strip (split_on 10 content' ! i)) \<or>
            is_numbered U ''Story'' (strip (split_on 10 content' ! i)) \<or>
            is_long_title 10 (strip (split_on 10 content' ! i)))"
proof -
  let ?lines = "split_on 10 content'"
  let ?l = "strip (?lines ! i)"
  let ?cs = "skip_blank_lines ?lines (i + 1)"
  let ?mk = "\<lparr>marker.title = ?l, line = i + 1, start_content = ?cs + 1\<rparr>"
  let ?hit = "?l \<noteq> [] \<and> list_ex (\<lambda>p. re_match U p ?l) section_patterns"
  have here: "section_match U ?lines i ?l section_patterns =
      (if list_ex (\<lambda>p. re_match U p ?l) section_patterns then [?mk] else [])"
    by (simp add: section_match_eq)
  have mem: "m \<in> set (detect_section_patterns U content') \<longleftrightarrow>
      (\<exists>j < length ?lines. strip (?lines ! j) \<noteq> [] \<and>
        m \<in> set (section_match U ?lines j (strip (?lines ! j)) section_patterns))" for m
    using section_scan_set [of m U ?lines 0 ?lines]
    by (simp add: detect_section_patterns_def Let_def)
  have at_i: "m \<in> set (detect_section_patterns U content') \<and> line m = i + 1 \<longleftrightarrow>
      ?l \<noteq> [] \<and> m \<in> set (section_match U ?lines i ?l section_patterns)" for m
  proof
    assume a: "m \<in> set (detect_section_patterns U content') \<and> line m = i + 1"
    then obtain j where j: "j < length ?lines" "strip (?lines ! j) \<noteq> []"
        "m \<in> set (section_match U ?lines j (strip (?lines ! j)) section_patterns)"
      using mem by blast
    then have "line m = j + 1" using section_marker_line by blast
    then have "j = i" using a by simp
    then show "?l \<noteq> [] \<and> m \<in> set (section_match U ?lines i ?l section_patterns)"
      using j by simp
  next
    assume b: "?l \<noteq> [] \<and> m \<in> set (section_match U ?lines i ?l section_patterns)"
    then have "line m = i + 1" using section_marker_line by blast
    moreover have "m \<in> set (detect_section_patterns U content')"
      using mem assms b by blast
    ultimately show "m \<in> set (detect_section_patterns U content') \<and> line m = i + 1" by simp
  qed
  have one: "(\<exists>m \<in> set (detect_section_patterns U content'). line m = i + 1) = ?hit"
    using at_i here by (auto simp: Bex_def)
  have "?mk \<in> set (detect_section_patterns U content') \<longleftrightarrow>
      ?l \<noteq> [] \<and> ?mk \<in> set (section_match U ?lines i ?l section_patterns)"
    using at_i [of ?mk] by simp
  then have two: "(?mk \<in> set (detect_section_patterns U content')) = ?hit"
    using here by auto
  have three: "list_ex (\<lambda>p. re_match U p ?l) section_patterns =
      (is_all_caps ?l \<or> is_title_colon ?l \<or> is_numbered U ''Chapter'' ?l \<or>
       is_numbered U ''Part'' ?l \<or> is_numbered U ''Section'' ?l \<or>
       is_numbered U ''Story'' ?l \<or> is_long_title 10 ?l)"
    by (rule section_patterns_match [OF stripped_line_no_newline [OF assms]])
  show ?thesis using one two pattern_sets three by blast
qed

theorem section_marker_iff_witness:
  "lines_after (split_on 10 heading_only) (skip_blank_lines (split_on 10 heading_only) 1) = 0 \<and>
   list_ex (\<lambda>m. line m = 1) (detect_section_patterns ascii_only heading_only)"
proof -
  have cs3: "skip_blank_lines (split_on 10 heading_only) (Suc 0) = 2"
    unfolding heading_only_split
    by (simp add: skip_blank_lines.simps strip_def py_isspace_def str_def)
  have la3: "lines_after (split_on 10 heading_only) 2 = 0"
    unfolding heading_only_split by (simp add: lines_after_def)
  have hit: "strip (split_on 10 heading_only ! 0) \<noteq> [] \<and>
      list_ex (\<lambda>p. re_match ascii_only p (strip (split_on 10 heading_only ! 0))) section_patterns"
    unfolding heading_only_split by (simp add: detect_eval)
  have "(\<exists>m \<in> set (detect_section_patterns ascii_only heading_only). line m = 0 + 1) =
      (strip (split_on 10 heading_only ! 0) \<noteq> [] \<and>
       list_ex (\<lambda>p. re_match ascii_only p (strip (split_on 10 heading_only ! 0))) section_patterns)"
    by (rule section_marker_iff [of 0 heading_only ascii_only, THEN conjunct1])
       (simp add: heading_only_split)
  then have "list_ex (\<lambda>m. line m = 1) (detect_section_patterns ascii_only heading_only)"
    using hit by (simp add: list_ex_iff)
  then show ?thesis by (simp add: cs3 la3)
qed

text \<open>
  C2 as the specification words it fails in both directions: the line \<^verbatim>\<open>Section 1\<close> is
  marked and matches none of the patterns the specification lists; the line \<^verbatim>\<open>Hello\<close>
  matches the title-case pattern without a floor and is not marked.
\<close>

theorem policy_b_patterns_counterexample:
  "detect_section_patterns ascii_only (str ''Section 1'') =
     [\<lparr>marker.title = str ''Section 1'', line = 1, start_content = 2\<rparr>] \<and>
   \<not> list_ex (\<lambda>p. re_match ascii_only p (str ''Section 1'')) spec_policy_b_patterns \<and>
   list_ex (\<lambda>p. re_match ascii_only p (str ''Hello'')) spec_policy_b_patterns \<and>
   detect_section_patterns ascii_only (str ''Hello'') = []"
  by (simp add: detect_eval spec_policy_b_patterns_def)

section \<open>The output file is written last\<close>

lemma files_print [simp]: "files (print m w) = files w"
  by (simp add: print_def)

lemma write_error_print [simp]: "write_error (print m w) = write_error w"
  by (simp add: print_def)

lemma dump_error_print [simp]: "dump_error (print m w) = dump_error w"
  by (simp add: print_def)

lemma open_read_print [simp]: "open_read (print m w) p = open_read w p"
  by (simp add: open_read_def)

lemma read_content_print [simp]: "read_content L (print m w) p = read_content L w p"
  by (simp add: read_content_def split: sum.splits option.splits)

lemma read_content_missing:
  "files w p = Missing \<Longrightarrow> read_content L w p = Inl FileNotFoundError"
  by (simp add: read_content_def open_read_def)

lemma read_content_unreachable:
  "files w p = Unreachable \<Longrightarrow> read_content L w p = Inl OtherOSError"
  by (simp add: read_content_def open_read_def)

lemma write_file_other: "p \<noteq> path \<Longrightarrow> files (snd (write_file path bytes w)) p = files w p"
  by (simp add: write_file_def split: option.splits prod.splits)

lemma write_file_target:
  "files (snd (write_file path bytes w)) path = files w path \<or>
   (\<exists>k. files (snd (write_file path bytes w)) path = Data (take k bytes))"
proof (cases "write_error w path")
  case (Some e)
  then show ?thesis by (simp add: write_file_def)
next
  case None
  show ?thesis
  proof (cases "dump_error w path bytes")
    case (Some ek)
    then show ?thesis using None by (cases ek) (auto simp: write_file_def)
  next
    case none: None
    have "files (snd (write_file path bytes w)) path = Data (take (length bytes) bytes)"
      using None none by (simp add: write_file_def)
    then show ?thesis by blast
  qed
qed

lemma write_file_done:
  "fst (write_file path bytes w) = Inr u \<Longrightarrow> files (snd (write_file path bytes w)) path = Data bytes"
  by (auto simp: write_file_def split: option.splits prod.splits)

lemma convert_fails:
  "read_content L w inp = Inl e \<Longrightarrow>
     convert_book_to_json L U inp out w = (Inl e, print (Reading_text_from inp) w)"
  by (simp add: convert_book_to_json_def Let_def)

lemma convert_reads:
  assumes "read_content L w inp = Inr c"
  shows "files (snd (convert_book_to_json L U inp out w)) =
           files (snd (write_file out (json_dump L (book_json L inp (extract_content_sections U c)))
             (print (Writing_structured_JSON_to out)
               (print Analyzing_content_structure (print (Reading_text_from inp) w))))) \<and>
         (fst (convert_book_to_json L U inp out w) = Inr () \<longleftrightarrow>
          fst (write_file out (json_dump L (book_json L inp (extract_content_sections U c)))
             (print (Writing_structured_JSON_to out)
               (print Analyzing_content_structure (print (Reading_text_from inp) w)))) = Inr ())"
  using assms
  by (simp add: convert_book_to_json_def Let_def split: prod.splits sum.splits)

lemma main_read_fails:
  assumes "read_content L w (input_file a) = Inl e"
  shows "files (main L U a w) = files w"
  using assms
  by (cases e) (simp_all add: main_def main_try_def convert_fails Let_def split: option.splits)

lemma main_missing:
  assumes "files w (input_file a) = Missing"
  shows "main L U a w =
     w\<lparr>stdout := stdout w @
         [Reading_text_from (input_file a),
          Error_could_not_find_input_file (input_file a),
          Please_make_sure_the_file_exists]\<rparr>"
  using read_content_missing [OF assms, of L]
  by (simp add: main_def main_try_def convert_fails Let_def print_def split: option.splits)

lemma main_unreachable:
  assumes "files w (input_file a) = Unreachable"
  shows "main L U a w =
     w\<lparr>stdout := stdout w @
         [Reading_text_from (input_file a), Error_during_conversion OtherOSError]\<rparr>"
  using read_content_unreachable [OF assms, of L]
  by (simp add: main_def main_try_def convert_fails Let_def print_def split: option.splits)

text \<open>
  C8, as the code has it. When the input is missing, that is, opening it raises
  \<^verbatim>\<open>FileNotFoundError\<close>, \<open>main\<close> prints the file-not-found message of its first handler and
  changes no file. When there is no input and its path cannot be followed, opening it
  raises another \<^verbatim>\<open>OSError\<close>, and \<open>main\<close> prints the message of its general handler and
  changes no file. Whenever reading the input fails, \<open>main\<close> and \<open>convert_book_to_json\<close>
  leave every file as it was. And when the input was read, \<open>convert_book_to_json\<close> touches
  no file but the output file, which it leaves untouched or with bytes of the document
  that was assembled from the whole input before the file was opened: all of them when
  the conversion succeeds.
\<close>

theorem output_written_last:
  "(files w (input_file a) = Missing \<longrightarrow>
      main L U a w =
        w\<lparr>stdout := stdout w @
            [Reading_text_from (input_file a),
             Error_could_not_find_input_file (input_file a),
             Please_make_sure_the_file_exists]\<rparr>) \<and>
   (files w (input_file a) = Unreachable \<longrightarrow>
      main L U a w =
        w\<lparr>stdout := stdout w @
            [Reading_text_from (input_file a), Error_during_conversion OtherOSError]\<rparr>) \<and>
   (\<forall>e. read_content L w (input_file a) = Inl e \<longrightarrow> files (main L U a w) = files w) \<and>
   (\<forall>e. read_content L w inp = Inl e \<longrightarrow>
      convert_book_to_json L U inp out w = (Inl e, print (Reading_text_from inp) w)) \<and>
   (\<forall>c. read_content L w inp = Inr c \<longrightarrow>
      (\<forall>p. p \<noteq> out \<longrightarrow> files (snd (convert_book_to_json L U inp out w)) p = files w p) \<and>
      (files (snd (convert_book_to_json L U inp out w)) out = files w out \<or>
       (\<exists>k. files (snd (convert_book_to_json L U inp out w)) out =
          Data (take k (json_dump L (book_json L inp (extract_content_sections U c)))))) \<and>
      (fst (convert_book_to_json L U inp out w) = Inr () \<longrightarrow>
         files (snd (convert_book_to_json L U inp out w)) out =
           Data (json_dump L (book_json L inp (extract_content_sections U c)))))"
proof (intro conjI impI allI)
  assume "files w (input_file a) = Missing"
  then show "main L U a w =
        w\<lparr>stdout := stdout w @
            [Reading_text_from (input_file a),
             Error_could_not_find_input_file (input_file a),
             Please_make_sure_the_file_exists]\<rparr>"
    by (rule main_missing)
next
  assume "files w (input_file a) = Unreachable"
  then show "main L U a w =
        w\<lparr>stdout := stdout w @
            [Reading_text_from (input_file a), Error_during_conversion OtherOSError]\<rparr>"
    by (rule main_unreachable)
next
  fix e assume "read_content L w (input_file a) = Inl e"
  then show "files (main L U a w) = files w"
    by (rule main_read_fails)
next
  fix e assume "read_content L w inp = Inl e"
  then show "convert_book_to_json L U inp out w = (Inl e, print (Reading_text_from inp) w)"
    by (rule convert_fails)
next
  fix c p assume r: "read_content L w inp = Inr c" and p: "p \<noteq> out"
  show "files (snd (convert_book_to_json L U inp out w)) p = files w p"
    using convert_reads [OF r, of U out] write_file_other [OF p] by simp
next
  fix c assume r: "read_content L w inp = Inr c"
  let ?bytes = "json_dump L (book_json L inp (extract_content_sections U c))"
  let ?w = "print (Writing_structured_JSON_to out)
      (print Analyzing_content_structure (print (Reading_text_from inp) w))"
  have "files (snd (write_file out ?bytes ?w)) out = files ?w out \<or>
      (\<exists>k. files (snd (write_file out ?bytes ?w)) out = Data (take k ?bytes))"
    by (rule write_file_target)
  then show "files (snd (convert_book_to_json L U inp out w)) out = files w out \<or>
       (\<exists>k. files (snd (convert_book_to_json L U inp out w)) out = Data (take k ?bytes))"
    using convert_reads [OF r, of U out] by simp
next
  fix c assume r: "read_content L w inp = Inr c"
    and ok: "fst (convert_book_to_json L U inp out w) = Inr ()"
  let ?bytes = "json_dump L (book_json L inp (extract_content_sections U c))"
  let ?w = "print (Writing_structured_JSON_to out)
      (print Analyzing_content_structure (print (Reading_text_from inp) w))"
  have "fst (write_file out ?bytes ?w) = Inr ()"
    using convert_reads [OF r, of U out] ok by simp
  then have "files (snd (write_file out ?bytes ?w)) out = Data ?bytes"
    by (rule write_file_done)
  then show "files (snd (convert_book_to_json L U inp out w)) out = Data ?bytes"
    using convert_reads [OF r, of U out] by simp
qed

lemma five_lines_newlines: "universal_newlines five_lines = five_lines"
  by (simp add: five_lines_def str_def)

lemma five_lines_ascii: "list_all (\<lambda>b. b < 128) five_lines"
  by (simp add: five_lines_def str_def)

lemma five_lines_counts:
  "length (split_ws (str ''one two three four five'')) = 5"
  "length (str ''one two three four five'') = 23"
  by (simp_all add: split_ws_def str_def py_isspace_def)

lemma path_facts:
  "str ''out.json'' \<noteq> str ''in.txt''" "str ''in.txt'' \<noteq> str ''out.json''"
  "take 7 (str ''in.txt'') \<noteq> str ''in.txt/''" "take 7 (str ''out.json'') \<noteq> str ''in.txt/''"
  "take 7 (str ''in.txt/child.txt'') = str ''in.txt/''"
  "str ''in.txt/child.txt'' \<noteq> str ''in.txt''"
  by (simp_all add: str_def)

lemma read_five_lines:
  "read_content stub_lib five_lines_world (str ''in.txt'') = Inr five_lines"
  "read_content stub_lib full_disk_world (str ''in.txt'') = Inr five_lines"
  by (simp_all add: read_content_def open_read_def five_lines_world_def full_disk_world_def
      stub_lib_def five_lines_ascii five_lines_newlines)

text \<open>A run that succeeds: the output file holds the whole serialised document.\<close>

lemma convert_five_lines:
  "fst (convert_book_to_json stub_lib ascii_only (str ''in.txt'') (str ''out.json'')
          five_lines_world) = Inr () \<and>
   files (snd (convert_book_to_json stub_lib ascii_only (str ''in.txt'') (str ''out.json'')
          five_lines_world)) (str ''out.json'') = Data (str ''one two three four five'') \<and>
   stdout (snd (convert_book_to_json stub_lib ascii_only (str ''in.txt'') (str ''out.json'')
          five_lines_world)) =
     [Reading_text_from (str ''in.txt''), Analyzing_content_structure,
      Writing_structured_JSON_to (str ''out.json''), Conversion_completed_successfully,
      Total_sections_processed 1, Total_words 5, Total_characters 23]"
  by (simp add: convert_book_to_json_def read_five_lines Let_def five_lines_extract book_json_def
      write_file_def five_lines_counts)
     (simp add: print_def five_lines_world_def stub_lib_def)

text \<open>
  A run whose writing is interrupted: the read and the segmentation succeeded, the output
  file had the content \<^verbatim>\<open>old\<close>, and it is left with the first three bytes of the document.
\<close>

lemma convert_interrupted:
  "fst (convert_book_to_json stub_lib ascii_only (str ''in.txt'') (str ''out.json'')
          full_disk_world) = Inl OtherOSError \<and>
   files full_disk_world (str ''out.json'') = Data (str ''old'') \<and>
   files (snd (convert_book_to_json stub_lib ascii_only (str ''in.txt'') (str ''out.json'')
          full_disk_world)) (str ''out.json'') = Data (str ''one'')"
  by (simp add: convert_book_to_json_def read_five_lines Let_def five_lines_extract book_json_def
      write_file_def five_lines_counts)
     (simp add: print_def full_disk_world_def stub_lib_def path_facts, simp add: str_def)

theorem output_written_last_witness:
  "stdout (main stub_lib ascii_only
      \<lparr>input_file = str ''missing.txt'', output = None, individual = False\<rparr> empty_world) =
     [Reading_text_from (str ''missing.txt''),
      Error_could_not_find_input_file (str ''missing.txt''),
      Please_make_sure_the_file_exists] \<and>
   files (main stub_lib ascii_only
      \<lparr>input_file = str ''missing.txt'', output = None, individual = False\<rparr> empty_world)
      (str ''missing.txt_structured.json'') = Missing \<and>
   files (snd (convert_book_to_json stub_lib ascii_only (str ''in.txt'') (str ''out.json'')
      full_disk_world)) (str ''in.txt'') = Data five_lines"
proof -
  let ?a = "\<lparr>input_file = str ''missing.txt'', output = None, individual = False\<rparr>"
  have miss: "files empty_world (input_file ?a) = Missing"
    by (simp add: empty_world_def)
  have "main stub_lib ascii_only ?a empty_world =
      empty_world\<lparr>stdout := stdout empty_world @
         [Reading_text_from (input_file ?a),
          Error_could_not_find_input_file (input_file ?a),
          Please_make_sure_the_file_exists]\<rparr>"
    using output_written_last [THEN conjunct1, of empty_world ?a stub_lib ascii_only] miss
    by blast
  then have one: "stdout (main stub_lib ascii_only ?a empty_world) =
     [Reading_text_from (str ''missing.txt''),
      Error_could_not_find_input_file (str ''missing.txt''),
      Please_make_sure_the_file_exists] \<and>
     files (main stub_lib ascii_only ?a empty_world) (str ''missing.txt_structured.json'') = Missing"
    by (simp add: empty_world_def)
  have "files (snd (convert_book_to_json stub_lib ascii_only (str ''in.txt'') (str ''out.json'')
      full_disk_world)) (str ''in.txt'') = files full_disk_world (str ''in.txt'')"
    using output_written_last [where w = full_disk_world and L = stub_lib and U = ascii_only
        and inp = "str ''in.txt''" and out = "str ''out.json''"]
      read_five_lines(2) path_facts(2)
    by blast
  then have two: "files (snd (convert_book_to_json stub_lib ascii_only (str ''in.txt'')
      (str ''out.json'') full_disk_world)) (str ''in.txt'') = Data five_lines"
    by (simp add: full_disk_world_def)
  show ?thesis using one two by blast
qed

text \<open>
  C8 as the specification words it fails for an input that does not exist and whose path
  goes through a file: the run does not report the file-not-found condition.
\<close>

theorem absent_input_counterexample:
  "no_such_file one_file_world (str ''in.txt/child.txt'') \<and>
   stdout (main stub_lib ascii_only
      \<lparr>input_file = str ''in.txt/child.txt'', output = None, individual = False\<rparr>
      one_file_world) =
     [Reading_text_from (str ''in.txt/child.txt''), Error_during_conversion OtherOSError] \<and>
   \<not> list_ex (\<lambda>m. m = Error_could_not_find_input_file (str ''in.txt/child.txt''))
      (stdout (main stub_lib ascii_only
         \<lparr>input_file = str ''in.txt/child.txt'', output = None, individual = False\<rparr>
         one_file_world))"
proof -
  let ?a = "\<lparr>input_file = str ''in.txt/child.txt'', output = None, individual = False\<rparr>"
  have un: "files one_file_world (input_file ?a) = Unreachable"
    by (simp add: one_file_world_def path_facts)
  have "main stub_lib ascii_only ?a one_file_world =
      one_file_world\<lparr>stdout := stdout one_file_world @
         [Reading_text_from (input_file ?a), Error_during_conversion OtherOSError]\<rparr>"
    using un by (rule main_unreachable)
  then have "stdout (main stub_lib ascii_only ?a one_file_world) =
      [Reading_text_from (str ''in.txt/child.txt''), Error_during_conversion OtherOSError]"
    by (simp add: one_file_world_def)
  then show ?thesis using un by (simp add: no_such_file_def)
qed

end
